theory Spec2Isabelle
  imports Main
begin

section \<open>Checkpoint management (src/checkpoint.c)\<close>

text \<open>
  A shallow embedding of \<^verbatim>\<open>checkpoint.c\<close>: the action compiler, the format
  interpreter, the runtime executor and the shutdown pass. C strings are character
  lists without the terminating NUL; a nullable \<^verbatim>\<open>char *\<close> is a \<open>string option\<close>.
  File-scope variables are the fields of one state record that every function takes
  and returns. Everything the functions do to the outside world (stream output,
  signal mask, sleeping, launching a script) is appended to a trace of events.
\<close>

subsection \<open>Data\<close>

datatype checkpoint_opcode =
    cop_dot
  | cop_bell
  | cop_echo
  | cop_ttyout
  | cop_sleep
  | cop_exec
  | cop_totals
  | cop_wait

text \<open>
  The union \<^verbatim>\<open>v\<close> of \<^verbatim>\<open>struct checkpoint_action\<close>. \<^verbatim>\<open>alloc_action\<close> obtains
  the record from \<^verbatim>\<open>xzalloc\<close>, so a member that was never assigned is all zero bits:
  \<open>V_zero\<close>, which reads as a NULL \<^verbatim>\<open>command\<close>.
\<close>

datatype payload =
    V_zero
  | V_time nat
  | V_command string
  | V_signal int

record action =
  opcode :: checkpoint_opcode
  v :: payload

datatype chkp = CHKP_INIT | CHKP_COMPILE | CHKP_RUN

datatype stream = Stdlis | Stderr | Tty

datatype report =
    Cannot_split_string string string
  | Too_many_words string

datatype event =
    Fwrite stream string
  | Fopen_tty bool
  | Fclose_tty
  | Paxerror report
  | Sleep nat
  | Exec_script "string option" string int
  | Print_total_stats
  | Sigprocmask_block "int set"
  | Sigwait "int set"

datatype fatal =
    Not_a_valid_timeout string
  | Unknown_checkpoint_action string
  | Read_past_terminator
  | Stack_exhausted

text \<open>
  The collaborators that \<^verbatim>\<open>checkpoint.c\<close> calls and that live in other files of the
  program or in the C library. They are parameters of the model.
  \<^item> \<open>stoint arg maxval\<close> stands for \<^verbatim>\<open>stoint (arg, &end, NULL, 0, maxval)\<close>: every
    call in this file passes NULL for the overflow flag and 0 for the minimum, so the
    value is a natural number; the result is the value and the offset of \<^verbatim>\<open>end\<close>
    in \<open>arg\<close>.
  \<^item> \<open>wordsplit arg\<close> is the word list, or the text of \<^verbatim>\<open>wordsplit_strerror\<close>.
  \<^item> \<open>winsize fp\<close> is \<^verbatim>\<open>ws_col\<close> when the \<^verbatim>\<open>TIOCGWINSZ\<close> ioctl exists and
    succeeds on the stream.
  \<^item> \<open>tty_opens\<close> tells whether \<^verbatim>\<open>fopen ("/dev/tty", "w")\<close> succeeds.
  \<^item> \<open>sigaddset_ok n\<close> tells whether \<^verbatim>\<open>sigaddset\<close> accepts the signal number
    \<open>n\<close>; for any other number it fails and leaves the set as it is.
  \<^item> \<open>unblockable\<close> is the set of the signals that the system never blocks
    (\<^verbatim>\<open>SIGKILL\<close> and \<^verbatim>\<open>SIGSTOP\<close>): \<^verbatim>\<open>sigprocmask\<close> passes over them.
\<close>

record extern =
  unquote_string :: "string \<Rightarrow> string"
  stoint :: "string \<Rightarrow> nat \<Rightarrow> nat \<times> nat"
  decode_signal :: "string \<Rightarrow> int"
  wordsplit :: "string \<Rightarrow> string + string list"
  format_total_stats :: "string option list \<Rightarrow> string"
  localtime_ok :: bool
  fprintftime :: "string \<Rightarrow> string"
  duration_text :: string
  gettext :: "string \<Rightarrow> string"
  program_name :: string
  archive_name :: string
  winsize :: "stream \<Rightarrow> nat option"
  getenv_COLUMNS :: "string option"
  tty_opens :: bool
  sigaddset_ok :: "int \<Rightarrow> bool"
  unblockable :: "int set"
  DEFAULT_CHECKPOINT :: int
  TIME_T_MAX :: nat

text \<open>
  The file-scope variables, the external \<^verbatim>\<open>checkpoint_option\<close>, the signal mask of
  the process and the trace.
\<close>

record cstate =
  checkpoint :: int
  checkpoint_action :: "action list"
  checkpoint_state :: chkp
  sigs :: "int set"
  checkpoint_option :: int
  tty :: bool
  tty_cleanup :: bool
  sigmask :: "int set"
  trace :: "event list"

subsection \<open>Compiling actions\<close>

text \<open>
  Lines 85 to 91 of \<^verbatim>\<open>copy_string_unquote\<close>: when the copy starts with a quote
  character, is longer than one character and ends with the same character, the
  \<^verbatim>\<open>memmove\<close> keeps the \<open>len - 2\<close> characters after the first.
\<close>

definition strip_quote_pair :: "string \<Rightarrow> string" where
  "strip_quote_pair str =
     (case str of
        [] \<Rightarrow> str
      | c # rest \<Rightarrow>
          if (c = CHR 0x22 \<or> c = CHR 0x27) \<and> 1 < length str \<and> last str = c
          then take (length str - 2) rest
          else str)"

definition copy_string_unquote :: "extern \<Rightarrow> string \<Rightarrow> string" where
  "copy_string_unquote E str = unquote_string E (strip_quote_pair str)"

text \<open>
  \<^verbatim>\<open>alloc_action\<close> appends a zeroed record with the opcode at the tail of the list
  and returns a pointer to it; \<open>set_tail_v\<close> is the caller's assignment
  \<^verbatim>\<open>act->v.member = value\<close> through that pointer.
\<close>

definition alloc_action :: "checkpoint_opcode \<Rightarrow> cstate \<Rightarrow> cstate" where
  "alloc_action opc st =
     st\<lparr>checkpoint_action := checkpoint_action st @ [\<lparr>opcode = opc, v = V_zero\<rparr>]\<rparr>"

definition set_tail_v :: "payload \<Rightarrow> cstate \<Rightarrow> cstate" where
  "set_tail_v x st =
     (case rev (checkpoint_action st) of
        [] \<Rightarrow> st
      | p # earlier \<Rightarrow> st\<lparr>checkpoint_action := rev earlier @ [p\<lparr>v := x\<rparr>]\<rparr>)"

text \<open>
  \<^verbatim>\<open>checkpoint_compile_action\<close>. \<^verbatim>\<open>strcmp (str, s) == 0\<close> is \<open>str = s\<close> and
  \<^verbatim>\<open>strncmp (str, s, n) == 0\<close> with \<open>n\<close> the length of \<open>s\<close> is \<open>take n str = s\<close>.
  \<^verbatim>\<open>paxfatal\<close> ends the process: the result is \<open>Inl\<close> and no state is left. The test
  \<^verbatim>\<open>(p == arg) | *p\<close> reads: the end pointer is at the start, or not at the
  terminating NUL.
\<close>

definition checkpoint_compile_action :: "extern \<Rightarrow> string \<Rightarrow> cstate \<Rightarrow> fatal + cstate" where
  "checkpoint_compile_action E str st0 =
     (let st = (if checkpoint_state st0 = CHKP_INIT
                then st0\<lparr>sigs := {}, checkpoint_state := CHKP_COMPILE\<rparr>
                else st0)
      in if str = ''.'' \<or> str = ''dot'' then Inr (alloc_action cop_dot st)
      else if str = ''bell'' then Inr (alloc_action cop_bell st)
      else if str = ''echo'' then Inr (alloc_action cop_echo st)
      else if take 5 str = ''echo='' then
        Inr (set_tail_v (V_command (copy_string_unquote E (drop 5 str)))
               (alloc_action cop_echo st))
      else if take 5 str = ''exec='' then
        Inr (set_tail_v (V_command (copy_string_unquote E (drop 5 str)))
               (alloc_action cop_exec st))
      else if take 7 str = ''ttyout='' then
        Inr (set_tail_v (V_command (copy_string_unquote E (drop 7 str)))
               (alloc_action cop_ttyout st))
      else if take 6 str = ''sleep='' then
        (let arg = drop 6 str;
             st1 = alloc_action cop_sleep st;
             (t, p) = stoint E arg (TIME_T_MAX E)
         in if p = 0 \<or> p \<noteq> length arg then Inl (Not_a_valid_timeout str)
            else Inr (set_tail_v (V_time t) st1))
      else if str = ''totals'' then Inr (alloc_action cop_totals st)
      else if take 5 str = ''wait='' then
        (let st1 = alloc_action cop_wait st;
             sg = decode_signal E (drop 5 str)
         in Inr ((set_tail_v (V_signal sg) st1)
                   \<lparr>sigs := (if sigaddset_ok E sg then insert sg (sigs st1)
                             else sigs st1)\<rparr>))
      else Inl (Unknown_checkpoint_action str))"

text \<open>
  \<^verbatim>\<open>checkpoint_finish_compile\<close>. \<^verbatim>\<open>sigprocmask (SIG_BLOCK, &sigs, NULL)\<close> adds
  the signals of the set that can be blocked to the mask of the process.
\<close>

definition checkpoint_finish_compile :: "extern \<Rightarrow> cstate \<Rightarrow> fatal + cstate" where
  "checkpoint_finish_compile E st0 =
     (case (if checkpoint_state st0 = CHKP_INIT \<and> checkpoint_option st0 \<noteq> 0
               \<and> checkpoint_action st0 = []
            then checkpoint_compile_action E ''echo'' st0
            else Inr st0) of
        Inl x \<Rightarrow> Inl x
      | Inr st \<Rightarrow>
          if checkpoint_state st = CHKP_COMPILE
          then Inr (st\<lparr>sigmask := sigmask st \<union> (sigs st - unblockable E),
                       trace := trace st @ [Sigprocmask_block (sigs st)],
                       checkpoint_option :=
                         (if checkpoint_option st = 0 then DEFAULT_CHECKPOINT E
                          else checkpoint_option st),
                       checkpoint_state := CHKP_RUN\<rparr>)
          else Inr st)"

subsection \<open>The format interpreter\<close>

definition checkpoint_total_format :: "string option list" where
  "checkpoint_total_format = [Some ''R'', Some ''W'', Some ''D'']"

definition INTMAX_MAX :: nat where
  "INTMAX_MAX = 9223372036854775807"

text \<open>
  \<^verbatim>\<open>getwidth\<close>: the window-size probe when it succeeds with a positive column
  count, else \<^verbatim>\<open>COLUMNS\<close> when it is set and \<^verbatim>\<open>! (*end | !col)\<close> holds (the end
  pointer is at the terminating NUL and the value is not zero), else 80.
\<close>

definition getwidth :: "extern \<Rightarrow> stream \<Rightarrow> nat" where
  "getwidth E fp =
     (case (case winsize E fp of
              Some ws_col \<Rightarrow> if 0 < ws_col then Some ws_col else None
            | None \<Rightarrow> None) of
        Some ws_col \<Rightarrow> ws_col
      | None \<Rightarrow>
          (case getenv_COLUMNS E of
             Some columns \<Rightarrow>
               (let (col, e) = stoint E columns INTMAX_MAX
                in if \<not> (e \<noteq> length columns \<or> col = 0) then col else 80)
           | None \<Rightarrow> 80))"

text \<open>
  \<^verbatim>\<open>getarg\<close> at offset \<open>i\<close> of the template: when the character there is an
  opening brace and a closing brace follows, the text between them and the offset
  just after the closing brace; else nothing (and the caller's pointer stays).
\<close>

definition getarg :: "string \<Rightarrow> nat \<Rightarrow> (string \<times> nat) option" where
  "getarg inp i =
     (if i < length inp \<and> inp ! i = CHR ''{'' then
        (let rest = drop (Suc i) inp;
             n = length (takeWhile (\<lambda>c. c \<noteq> CHR ''}'') rest)
         in if n < length rest then Some (take n rest, i + n + 2) else None)
      else None)"

definition def_format :: string where
  "def_format = ''%{%Y-%m-%d %H:%M:%S}t: %ds, %{read,wrote}T%*'' @ [CHR 0x0D]"

text \<open>
  What one call of the interpreter carries: the text put on the stream so far, the
  column count \<^verbatim>\<open>len\<close>, the file-scope flag \<^verbatim>\<open>tty_cleanup\<close> and the messages
  given to \<^verbatim>\<open>paxerror\<close>.
\<close>

record fstate =
  out :: string
  len :: nat
  cleanup :: bool
  errors :: "report list"

definition emit :: "string \<Rightarrow> fstate \<Rightarrow> fstate" where
  "emit s st = st\<lparr>out := out st @ s, len := len st + length s\<rparr>"

text \<open>The branch of an ordinary character (lines 363 to 373).\<close>

definition put_literal :: "char \<Rightarrow> fstate \<Rightarrow> fstate" where
  "put_literal c st =
     (if c = CHR 0x0D then st\<lparr>out := out st @ [c], len := 0, cleanup := True\<rparr>
      else st\<lparr>out := out st @ [c], len := len st + 1\<rparr>)"

text \<open>\<^verbatim>\<open>fprintf (fp, "%jd", cpn)\<close>.\<close>

fun dec :: "nat \<Rightarrow> string" where
  "dec n = (if n < 10 then [''0123456789'' ! n]
            else dec (n div 10) @ [''0123456789'' ! (n mod 10)])"

definition jd :: "int \<Rightarrow> string" where
  "jd i = (if i < 0 then CHR ''-'' # dec (nat (- i)) else dec (nat i))"

text \<open>
  Lines 297 to 321: the labels handed to \<^verbatim>\<open>format_total_stats\<close> and the messages
  reported on the way.
\<close>

definition total_labels :: "extern \<Rightarrow> string option \<Rightarrow> report list \<times> string option list" where
  "total_labels E arg =
     (case arg of
        None \<Rightarrow> ([], checkpoint_total_format)
      | Some a \<Rightarrow>
          (case wordsplit E a of
             Inl msg \<Rightarrow> ([Cannot_split_string a msg], checkpoint_total_format)
           | Inr ws_wordv \<Rightarrow>
               if 3 < length ws_wordv then ([Too_many_words a], checkpoint_total_format)
               else ([], map Some ws_wordv @ replicate (3 - length ws_wordv) None)))"

text \<open>
  Lines 340 to 349: the width a \<^verbatim>\<open>%*\<close> pads to. \<^verbatim>\<open>(end == arg) | *end\<close> reads as
  in \<^verbatim>\<open>checkpoint_compile_action\<close>.
\<close>

definition star_width :: "extern \<Rightarrow> stream \<Rightarrow> string option \<Rightarrow> nat" where
  "star_width E fp arg =
     (case arg of
        None \<Rightarrow> getwidth E fp
      | Some a \<Rightarrow>
          (let (w, e) = stoint E a INTMAX_MAX
           in if e = 0 \<or> e \<noteq> length a then 80 else w))"

text \<open>
  The \<^verbatim>\<open>switch\<close> on the directive letter, the case \<^verbatim>\<open>'c'\<close> apart. The letter is
  NUL when the template ends right after the percent sign or the argument.
\<close>

definition directive ::
  "extern \<Rightarrow> bool \<Rightarrow> int \<Rightarrow> stream \<Rightarrow> char \<Rightarrow> string option \<Rightarrow> fstate \<Rightarrow> fstate" where
  "directive E do_write cpn fp l arg st =
     (if l = CHR ''u'' then emit (jd cpn) st
      else if l = CHR ''s'' then
        emit (gettext E (if do_write then ''write'' else ''read'')) st
      else if l = CHR ''d'' then emit (duration_text E) st
      else if l = CHR ''T'' then
        (let (msgs, fmt) = total_labels E arg
         in (emit (format_total_stats E fmt) st)\<lparr>errors := errors st @ msgs\<rparr>)
      else if l = CHR ''t'' then
        emit (if localtime_ok E
              then fprintftime E (case arg of None \<Rightarrow> ''%c'' | Some a \<Rightarrow> a)
              else ''????-??-?? ??:??:??'') st
      else if l = CHR ''*'' then
        (let w = star_width E fp arg
         in st\<lparr>out := out st @ replicate (w - len st) CHR '' '', len := max (len st) w\<rparr>)
      else emit [CHR ''%'', l] st)"

text \<open>
  Reading \<^verbatim>\<open>*ip\<close> at an offset up to the length of the template: the character
  there, or the terminating NUL.
\<close>

definition char_at :: "string \<Rightarrow> nat \<Rightarrow> char" where
  "char_at inp i = (if i < length inp then inp ! i else CHR 0x00)"

datatype item =
    Literal char
  | Unclosed
  | Directive char "string option"

text \<open>
  One pass through the body of the \<^verbatim>\<open>for\<close> loop at offset \<open>ip\<close> below the length:
  what is found there and the offset \<^verbatim>\<open>ip\<close> holds when the body is left, before
  the \<^verbatim>\<open>ip++\<close> of the loop. After a percent sign \<^verbatim>\<open>*++ip\<close> is read; an opening
  brace there starts an argument, and an argument that is not closed gives the two
  characters back (line 267 to 273).
\<close>

definition fetch :: "string \<Rightarrow> nat \<Rightarrow> item \<times> nat" where
  "fetch inp ip =
     (if inp ! ip \<noteq> CHR ''%'' then (Literal (inp ! ip), ip)
      else if char_at inp (Suc ip) = CHR ''{'' then
        (case getarg inp (Suc ip) of
           None \<Rightarrow> (Unclosed, Suc ip)
         | Some (arg, e) \<Rightarrow> (Directive (char_at inp e) (Some arg), e))
      else (Directive (char_at inp (Suc ip)) None, Suc ip))"

text \<open>
  \<open>fcs\<close> is the loop of \<^verbatim>\<open>format_checkpoint_string\<close> from offset \<open>ip\<close> of the
  template. The loop test reads \<^verbatim>\<open>*ip\<close>: beyond the terminating NUL that read is
  outside the string, and the model stops with \<open>Read_past_terminator\<close>. The C function
  calls itself for \<^verbatim>\<open>%c\<close>; \<open>d\<close> is the number of nested calls the stack still has
  room for, and the call that finds none stops with \<open>Stack_exhausted\<close>. The nested call
  starts at the caller's column count and its result is added to that count. Writing
  to the stream is taken to succeed, and column counts are natural numbers: the
  wrap-around of \<^verbatim>\<open>size_t\<close> and the conversion of the result to \<^verbatim>\<open>int\<close> play no
  part below.
\<close>

function fcs ::
  "extern \<Rightarrow> nat \<Rightarrow> bool \<Rightarrow> int \<Rightarrow> stream \<Rightarrow> string \<Rightarrow> nat \<Rightarrow> fstate \<Rightarrow> fatal + fstate" where
  "fcs E d do_write cpn fp inp ip st =
     (if length inp < ip then Inl Read_past_terminator
      else if ip = length inp then Inr st
      else
        (case fetch inp ip of
           (Literal c, e) \<Rightarrow> fcs E d do_write cpn fp inp (Suc e) (put_literal c st)
         | (Unclosed, e) \<Rightarrow>
             fcs E d do_write cpn fp inp (Suc e) (emit [CHR ''%'', CHR ''{''] st)
         | (Directive l arg, e) \<Rightarrow>
             if l = CHR ''c'' then
               (case d of
                  0 \<Rightarrow> Inl Stack_exhausted
                | Suc d' \<Rightarrow>
                    (case fcs E d' do_write cpn fp def_format 0 st of
                       Inl x \<Rightarrow> Inl x
                     | Inr st1 \<Rightarrow>
                         fcs E d do_write cpn fp inp (Suc e)
                           (st1\<lparr>len := len st + len st1\<rparr>)))
             else fcs E d do_write cpn fp inp (Suc e)
                    (directive E do_write cpn fp l arg st)))"
  by pat_completeness auto
termination
  by (relation "measures [\<lambda>(E, d, do_write, cpn, fp, inp, ip, st). d,
                          \<lambda>(E, d, do_write, cpn, fp, inp, ip, st). Suc (length inp) - ip]")
     (auto simp: fetch_def getarg_def Let_def split: if_splits option.splits)

declare fcs.simps [simp del]

text \<open>
  \<^verbatim>\<open>format_checkpoint_string\<close>: a NULL template is replaced by the default message,
  then the loop runs from the start of the template. \<open>flag\<close> is the value of
  \<^verbatim>\<open>tty_cleanup\<close> at the call. The C function returns \<^verbatim>\<open>len\<close>.
\<close>

definition format_checkpoint_string ::
  "extern \<Rightarrow> nat \<Rightarrow> stream \<Rightarrow> nat \<Rightarrow> string option \<Rightarrow> bool \<Rightarrow> int \<Rightarrow> bool \<Rightarrow> fatal + fstate" where
  "format_checkpoint_string E d fp len0 input do_write cpn flag =
     fcs E d do_write cpn fp
       (case input of
          None \<Rightarrow> gettext E (if do_write then ''Write checkpoint %u''
                             else ''Read checkpoint %u'')
        | Some s \<Rightarrow> s)
       0 \<lparr>out = [], len = len0, cleanup = flag, errors = []\<rparr>"

subsection \<open>Running and flushing\<close>

text \<open>
  Reading the members of the union. Each opcode reads the member that
  \<^verbatim>\<open>checkpoint_compile_action\<close> wrote for it, or the zero bits of \<^verbatim>\<open>xzalloc\<close>.
\<close>

definition v_command :: "payload \<Rightarrow> string option" where
  "v_command x = (case x of V_command s \<Rightarrow> Some s | _ \<Rightarrow> None)"

definition v_time :: "payload \<Rightarrow> nat" where
  "v_time x = (case x of V_time t \<Rightarrow> t | _ \<Rightarrow> 0)"

text \<open>\<^verbatim>\<open>if (!tty) tty = fopen ("/dev/tty", "w");\<close>\<close>

definition open_tty :: "extern \<Rightarrow> cstate \<Rightarrow> cstate" where
  "open_tty E st =
     (if \<not> tty st
      then st\<lparr>tty := tty_opens E, trace := trace st @ [Fopen_tty (tty_opens E)]\<rparr>
      else st)"

text \<open>What a finished call of the interpreter on stream \<open>fp\<close> leaves in the state.\<close>

definition rendered :: "stream \<Rightarrow> fstate \<Rightarrow> cstate \<Rightarrow> cstate" where
  "rendered fp f st =
     st\<lparr>tty_cleanup := cleanup f,
        trace := trace st @ map Paxerror (errors f) @ [Fwrite fp (out f)]\<rparr>"

text \<open>
  The body of the loop of \<^verbatim>\<open>run_checkpoint_actions\<close> for the action \<open>p\<close>.
  \<^verbatim>\<open>sigwait\<close> is recorded with the set it waits on; the model goes on as if a
  signal of the set had arrived.
\<close>

definition run_action :: "extern \<Rightarrow> nat \<Rightarrow> bool \<Rightarrow> action \<Rightarrow> cstate \<Rightarrow> fatal + cstate" where
  "run_action E d do_write p st =
     (case opcode p of
        cop_dot \<Rightarrow> Inr (st\<lparr>trace := trace st @ [Fwrite Stdlis ''.'']\<rparr>)
      | cop_bell \<Rightarrow>
          (let st1 = open_tty E st
           in if tty st1 then Inr (st1\<lparr>trace := trace st1 @ [Fwrite Tty [CHR 0x07]]\<rparr>)
              else Inr st1)
      | cop_echo \<Rightarrow>
          (let prefix = program_name E @ '': '';
               st1 = st\<lparr>trace := trace st @ [Fwrite Stderr prefix]\<rparr>
           in case format_checkpoint_string E d Stderr (length prefix) (v_command (v p))
                     do_write (checkpoint st) (tty_cleanup st) of
                Inl x \<Rightarrow> Inl x
              | Inr f \<Rightarrow>
                  (let st2 = rendered Stderr f st1
                   in Inr (st2\<lparr>trace := trace st2 @ [Fwrite Stderr [CHR 0x0A]]\<rparr>)))
      | cop_ttyout \<Rightarrow>
          (let st1 = open_tty E st
           in if tty st1 then
                (case format_checkpoint_string E d Tty 0 (v_command (v p))
                        do_write (checkpoint st) (tty_cleanup st) of
                   Inl x \<Rightarrow> Inl x
                 | Inr f \<Rightarrow> Inr (rendered Tty f st1))
              else Inr st1)
      | cop_sleep \<Rightarrow> Inr (st\<lparr>trace := trace st @ [Sleep (v_time (v p))]\<rparr>)
      | cop_exec \<Rightarrow>
          Inr (st\<lparr>trace := trace st
                 @ [Exec_script (v_command (v p)) (archive_name E) (checkpoint st)]\<rparr>)
      | cop_totals \<Rightarrow> Inr (st\<lparr>trace := trace st @ [Print_total_stats]\<rparr>)
      | cop_wait \<Rightarrow> Inr (st\<lparr>trace := trace st @ [Sigwait (sigs st)]\<rparr>))"

text \<open>The loop \<^verbatim>\<open>for (p = ...; p; p = p->next)\<close> from the node \<open>p\<close> on.\<close>

fun run_from :: "extern \<Rightarrow> nat \<Rightarrow> bool \<Rightarrow> action list \<Rightarrow> cstate \<Rightarrow> fatal + cstate" where
  "run_from E d do_write [] st = Inr st"
| "run_from E d do_write (p # ps) st =
     (case run_action E d do_write p st of
        Inl x \<Rightarrow> Inl x
      | Inr st' \<Rightarrow> run_from E d do_write ps st')"

definition run_checkpoint_actions :: "extern \<Rightarrow> nat \<Rightarrow> bool \<Rightarrow> cstate \<Rightarrow> fatal + cstate" where
  "run_checkpoint_actions E d do_write st = run_from E d do_write (checkpoint_action st) st"

text \<open>The body of the loop of \<^verbatim>\<open>checkpoint_flush_actions\<close>, and the loop.\<close>

definition flush_action :: "extern \<Rightarrow> action \<Rightarrow> cstate \<Rightarrow> cstate" where
  "flush_action E p st =
     (case opcode p of
        cop_ttyout \<Rightarrow>
          if tty st \<and> tty_cleanup st
          then st\<lparr>trace := trace st
                    @ [Fwrite Tty (replicate (getwidth E Tty) CHR '' '' @ [CHR 0x0D])]\<rparr>
          else st
      | _ \<Rightarrow> st)"

definition checkpoint_flush_actions :: "extern \<Rightarrow> cstate \<Rightarrow> cstate" where
  "checkpoint_flush_actions E st = foldl (\<lambda>s p. flush_action E p s) st (checkpoint_action st)"

text \<open>
  \<^verbatim>\<open>++checkpoint\<close> on an \<^verbatim>\<open>intmax_t\<close>, with the two's complement wrap-around
  written out, and the remainder of C, which has the sign of the dividend.
\<close>

definition wrap_intmax :: "int \<Rightarrow> int" where
  "wrap_intmax x = (x + 2 ^ 63) mod 2 ^ 64 - 2 ^ 63"

definition c_rem :: "int \<Rightarrow> int \<Rightarrow> int" where
  "c_rem a b = sgn a * (\<bar>a\<bar> mod \<bar>b\<bar>)"

definition checkpoint_run :: "extern \<Rightarrow> nat \<Rightarrow> bool \<Rightarrow> cstate \<Rightarrow> fatal + cstate" where
  "checkpoint_run E d do_write st =
     (if checkpoint_option st \<noteq> 0 then
        (let st1 = st\<lparr>checkpoint := wrap_intmax (checkpoint st + 1)\<rparr>
         in if c_rem (checkpoint st1) (checkpoint_option st1) = 0
            then run_checkpoint_actions E d do_write st1
            else Inr st1)
      else Inr st)"

text \<open>\<^verbatim>\<open>checkpoint_finish\<close>. \<^verbatim>\<open>fclose\<close> leaves the pointer \<^verbatim>\<open>tty\<close> as it is.\<close>

definition checkpoint_finish :: "extern \<Rightarrow> cstate \<Rightarrow> cstate" where
  "checkpoint_finish E st =
     (if checkpoint_option st \<noteq> 0 then
        (let st1 = checkpoint_flush_actions E st
         in if tty st1 then st1\<lparr>trace := trace st1 @ [Fclose_tty]\<rparr> else st1)
      else st)"

subsection \<open>The calls of the host program\<close>

text \<open>
  The state at program start (all file-scope variables zero) for a configured
  interval \<open>opt\<close> and an inherited signal mask, and the order in which the host calls
  the unit: \<^verbatim>\<open>checkpoint_compile_action\<close> for each configured string,
  \<^verbatim>\<open>checkpoint_finish_compile\<close> once, \<^verbatim>\<open>checkpoint_run\<close> once for each block. A
  fatal error ends the sequence.
\<close>

definition initial :: "int \<Rightarrow> int set \<Rightarrow> cstate" where
  "initial opt blocked =
     \<lparr>checkpoint = 0, checkpoint_action = [], checkpoint_state = CHKP_INIT, sigs = {},
      checkpoint_option = opt, tty = False, tty_cleanup = False, sigmask = blocked,
      trace = []\<rparr>"

fun compile_all :: "extern \<Rightarrow> string list \<Rightarrow> cstate \<Rightarrow> fatal + cstate" where
  "compile_all E [] st = Inr st"
| "compile_all E (s # ss) st =
     (case checkpoint_compile_action E s st of
        Inl x \<Rightarrow> Inl x
      | Inr st' \<Rightarrow> compile_all E ss st')"

fun run_ticks :: "extern \<Rightarrow> nat \<Rightarrow> bool list \<Rightarrow> cstate \<Rightarrow> fatal + cstate" where
  "run_ticks E d [] st = Inr st"
| "run_ticks E d (w # ws) st =
     (case checkpoint_run E d w st of
        Inl x \<Rightarrow> Inl x
      | Inr st' \<Rightarrow> run_ticks E d ws st')"

definition session ::
  "extern \<Rightarrow> nat \<Rightarrow> int \<Rightarrow> int set \<Rightarrow> string list \<Rightarrow> bool list \<Rightarrow> fatal + cstate" where
  "session E d opt blocked specs ticks =
     (case compile_all E specs (initial opt blocked) of
        Inl x \<Rightarrow> Inl x
      | Inr st \<Rightarrow>
          (case checkpoint_finish_compile E st of
             Inl x \<Rightarrow> Inl x
           | Inr st' \<Rightarrow> run_ticks E d ticks st'))"

text \<open>
  Reading a trace: the sets given to \<^verbatim>\<open>sigprocmask\<close>, in order; whether every
  \<^verbatim>\<open>sigwait\<close> finds every signal of its set that can be blocked (that is not in
  \<open>U\<close>) in the mask of the process, which starts as \<open>m\<close> and grows with each
  \<^verbatim>\<open>sigprocmask\<close>; and whether the trace blocks at most
  once and waits only after that, on the set that was blocked (\<open>b\<close> is the set blocked
  so far, if any).
\<close>

fun blockings :: "event list \<Rightarrow> int set list" where
  "blockings [] = []"
| "blockings (Sigprocmask_block S # es) = S # blockings es"
| "blockings (e # es) = blockings es"

fun waits_blocked :: "int set \<Rightarrow> int set \<Rightarrow> event list \<Rightarrow> bool" where
  "waits_blocked U m [] = True"
| "waits_blocked U m (Sigprocmask_block S # es) = waits_blocked U (m \<union> (S - U)) es"
| "waits_blocked U m (Sigwait S # es) = (S - U \<subseteq> m \<and> waits_blocked U m es)"
| "waits_blocked U m (e # es) = waits_blocked U m es"

fun block_then_wait :: "int set option \<Rightarrow> event list \<Rightarrow> bool" where
  "block_then_wait b [] = True"
| "block_then_wait b (Sigprocmask_block S # es) = (b = None \<and> block_then_wait (Some S) es)"
| "block_then_wait b (Sigwait S # es) = (b = Some S \<and> block_then_wait b es)"
| "block_then_wait b (e # es) = block_then_wait b es"

subsection \<open>Collaborators as the specification describes them\<close>

definition is_digit :: "char \<Rightarrow> bool" where
  "is_digit c = (c \<in> set ''0123456789'')"

definition digit_value :: "char \<Rightarrow> nat" where
  "digit_value c = length (takeWhile (\<lambda>x. x \<noteq> c) ''0123456789'')"

definition decimal_value :: "string \<Rightarrow> nat" where
  "decimal_value ds = foldl (\<lambda>a c. 10 * a + digit_value c) 0 ds"

text \<open>
  Modelled from the spec: \<^verbatim>\<open>stoint\<close> is defined in another file of the program.
  The spec says of the payload of \<^verbatim>\<open>sleep=\<close>: "N parsed as a non-negative integer
  duration; invalid or out-of-range input is a fatal configuration error". The caller
  passes no overflow flag and looks at the end pointer only, so the model converts the
  leading run of decimal digits and leaves the end pointer at the start of the text
  when there is no digit or when the number is above the maximum.
\<close>

definition stoint_spec :: "string \<Rightarrow> nat \<Rightarrow> nat \<times> nat" where
  "stoint_spec arg maxval =
     (let ds = takeWhile is_digit arg
      in if ds = [] \<or> maxval < decimal_value ds then (0, 0)
         else (decimal_value ds, length ds))"

text \<open>
  Modelled from the spec: \<^verbatim>\<open>decode_signal\<close> is defined in another file. The spec
  says: "SIG resolved to a signal identifier via a name/number lookup". The names of
  the model, with or without the prefix SIG, have their Linux numbers; any other text
  is read as a number.
\<close>

definition decode_signal_spec :: "string \<Rightarrow> int" where
  "decode_signal_spec name =
     (let s = (if take 3 name = ''SIG'' then drop 3 name else name)
      in if s = ''HUP'' then 1
         else if s = ''INT'' then 2
         else if s = ''QUIT'' then 3
         else if s = ''USR1'' then 10
         else if s = ''USR2'' then 12
         else int (decimal_value s))"

text \<open>
  Modelled from the spec: \<^verbatim>\<open>wordsplit\<close> is a library function. The spec says
  that the argument of \<^verbatim>\<open>%T\<close> "is split on commas"; the model does that and
  nothing else, and never fails.
\<close>

fun split_commas :: "string \<Rightarrow> string \<Rightarrow> string list" where
  "split_commas w [] = [w]"
| "split_commas w (c # cs) =
     (if c = CHR '','' then w # split_commas [] cs else split_commas (w @ [c]) cs)"

definition wordsplit_spec :: "string \<Rightarrow> string + string list" where
  "wordsplit_spec arg = (if arg = [] then Inr [] else Inr (split_commas [] arg))"

text \<open>
  Modelled from the spec: \<^verbatim>\<open>format_total_stats\<close> is defined in another file. The
  spec gives its interface, "format_totals(stream, labels[3], separator, flags) ->
  columnsWritten". The model writes, for each of the three slots, the label with a
  colon when there is one and a zero count, with the separator between the slots.
\<close>

definition label_stat :: "string option \<Rightarrow> string" where
  "label_stat l = (case l of None \<Rightarrow> ''0'' | Some x \<Rightarrow> x @ '': 0'')"

definition format_total_stats_spec :: "string option list \<Rightarrow> string" where
  "format_total_stats_spec fmt =
     (case map label_stat fmt of
        [] \<Rightarrow> []
      | x # xs \<Rightarrow> foldl (\<lambda>a b. a @ '','' @ b) x xs)"

text \<open>
  An environment to run the model in: the collaborators above, no escape sequence to
  resolve, untranslated messages, a terminal of 120 columns that opens,
  \<^verbatim>\<open>COLUMNS\<close> set to 100, and the signals of Linux: numbers 1 to 64, of which 9
  (\<^verbatim>\<open>SIGKILL\<close>) and 19 (\<^verbatim>\<open>SIGSTOP\<close>) cannot be blocked.
\<close>

definition extern0 :: extern where
  "extern0 =
     \<lparr>unquote_string = (\<lambda>s. s),
      stoint = stoint_spec,
      decode_signal = decode_signal_spec,
      wordsplit = wordsplit_spec,
      format_total_stats = format_total_stats_spec,
      localtime_ok = True,
      fprintftime = (\<lambda>fmt. ''2024-01-01 00:00:00''),
      duration_text = ''7'',
      gettext = (\<lambda>s. s),
      program_name = ''tar'',
      archive_name = ''archive.tar'',
      winsize = (\<lambda>fp. case fp of Tty \<Rightarrow> Some 120 | _ \<Rightarrow> None),
      getenv_COLUMNS = Some ''100'',
      tty_opens = True,
      sigaddset_ok = (\<lambda>n. 1 \<le> n \<and> n \<le> 64),
      unblockable = {9, 19},
      DEFAULT_CHECKPOINT = 10,
      TIME_T_MAX = INTMAX_MAX\<rparr>"

text \<open>
  The forms of a specification string that the table of the spec lists, and a payload
  of \<^verbatim>\<open>sleep=\<close> that is a non-negative integer within the range of the duration.
\<close>

definition listed_form :: "string \<Rightarrow> bool" where
  "listed_form str =
     (str = ''.'' \<or> str = ''dot'' \<or> str = ''bell'' \<or> str = ''echo'' \<or> str = ''totals''
      \<or> take 5 str = ''echo='' \<or> take 5 str = ''exec='' \<or> take 7 str = ''ttyout=''
      \<or> take 6 str = ''sleep='' \<or> take 5 str = ''wait='')"

definition valid_duration :: "nat \<Rightarrow> string \<Rightarrow> bool" where
  "valid_duration maxval s = (s \<noteq> [] \<and> list_all is_digit s \<and> decimal_value s \<le> maxval)"

subsection \<open>Notions used in the statements\<close>

text \<open>
  The records that compiling one string alone, from the state at program start, puts
  in the list: one record when the string is accepted.
\<close>

definition compiled_alone :: "extern \<Rightarrow> string \<Rightarrow> action list" where
  "compiled_alone E s =
     (case checkpoint_compile_action E s (initial 0 {}) of
        Inl x \<Rightarrow> []
      | Inr st \<Rightarrow> checkpoint_action st)"

text \<open>
  A stretch of trace without \<^verbatim>\<open>sigprocmask\<close> in which every \<^verbatim>\<open>sigwait\<close> is on
  the set \<open>S\<close>.
\<close>

definition only_waits_on :: "int set \<Rightarrow> event list \<Rightarrow> bool" where
  "only_waits_on S es = (blockings es = [] \<and> block_then_wait (Some S) es)"

text \<open>
  The offsets at which the loop of the interpreter enters its body when it scans a
  template: the start, and from each such offset below the length the one after the
  item found there.
\<close>

inductive reaches :: "string \<Rightarrow> nat \<Rightarrow> bool" where
  start: "reaches inp 0"
| step: "reaches inp ip \<Longrightarrow> ip < length inp \<Longrightarrow> reaches inp (Suc (snd (fetch inp ip)))"

section \<open>Properties\<close>

subsection \<open>Unquoting\<close>

lemma strip_quote_pair_wrapped:
  "q = CHR 0x22 \<or> q = CHR 0x27 \<Longrightarrow> strip_quote_pair (q # body @ [q]) = body"
  by (simp add: strip_quote_pair_def)

lemma strip_quote_pair_plain:
  "\<not> (1 < length s \<and> (hd s = CHR 0x22 \<or> hd s = CHR 0x27) \<and> last s = hd s)
   \<Longrightarrow> strip_quote_pair s = s"
  by (cases s) (auto simp: strip_quote_pair_def)

text \<open>
  Claim C6. Unquoting removes exactly one wrapping pair: a text \<open>q body q\<close> with \<open>q\<close> a
  single or a double quote becomes \<open>body\<close>, whatever \<open>body\<close> is (so a body that is
  itself quoted keeps its quotes), and only then goes through escape resolution. A
  text that is not longer than one character, or does not start with a quote, or does
  not end with its first character is left as it is by the stripping step, which is
  therefore idempotent on it.
\<close>

theorem copy_string_unquote_one_pair:
  "(q = CHR 0x22 \<or> q = CHR 0x27 \<longrightarrow>
      copy_string_unquote E (q # body @ [q]) = unquote_string E body)
   \<and> (\<not> (1 < length s \<and> (hd s = CHR 0x22 \<or> hd s = CHR 0x27) \<and> last s = hd s) \<longrightarrow>
        strip_quote_pair s = s
        \<and> strip_quote_pair (strip_quote_pair s) = strip_quote_pair s
        \<and> copy_string_unquote E s = unquote_string E s)"
  by (simp add: copy_string_unquote_def strip_quote_pair_wrapped strip_quote_pair_plain)

theorem copy_string_unquote_one_pair_witness:
  "copy_string_unquote extern0 (CHR 0x27 # (''it'' @ [CHR 0x27, CHR 0x27] @ ''s'') @ [CHR 0x27])
     = ''it'' @ [CHR 0x27, CHR 0x27] @ ''s''
   \<and> strip_quote_pair ''hello'' = ''hello''
   \<and> copy_string_unquote extern0 ''hello'' = ''hello''"
  using copy_string_unquote_one_pair
    [of "CHR 0x27" extern0 "''it'' @ [CHR 0x27, CHR 0x27] @ ''s''" "''hello''"]
  by (simp add: extern0_def)

subsection \<open>The tick counter\<close>

lemma wrap_intmax_id: "- (2 ^ 63) \<le> x \<Longrightarrow> x < 2 ^ 63 \<Longrightarrow> wrap_intmax x = x"
  by (simp add: wrap_intmax_def)

lemma c_rem_pos: "0 < a \<Longrightarrow> 0 < b \<Longrightarrow> (c_rem a b = 0) = (b dvd a)"
  by (auto simp: c_rem_def)

lemma checkpoint_run_step:
  assumes "0 < N" "checkpoint_option st = N" "0 \<le> checkpoint st" "checkpoint st < 2 ^ 63 - 1"
  shows "checkpoint_run E d w st =
     (if checkpoint st + 1 \<noteq> 0 \<and> N dvd checkpoint st + 1
      then run_checkpoint_actions E d w (st\<lparr>checkpoint := checkpoint st + 1\<rparr>)
      else Inr (st\<lparr>checkpoint := checkpoint st + 1\<rparr>))"
proof -
  have w: "wrap_intmax (checkpoint st + 1) = checkpoint st + 1"
    using assms by (intro wrap_intmax_id) auto
  have r: "(c_rem (checkpoint st + 1) N = 0) = (N dvd checkpoint st + 1)"
    using assms by (intro c_rem_pos) auto
  show ?thesis using assms w r by (simp add: checkpoint_run_def Let_def)
qed

lemma run_ticks_quiet:
  "0 < N \<Longrightarrow> N < 2 ^ 63 \<Longrightarrow> checkpoint_option st = N \<Longrightarrow> 0 \<le> checkpoint st
   \<Longrightarrow> checkpoint st + int (length ws) < N
   \<Longrightarrow> run_ticks E d ws st = Inr (st\<lparr>checkpoint := checkpoint st + int (length ws)\<rparr>)"
proof (induction ws arbitrary: st)
  case Nil
  then show ?case by simp
next
  case (Cons w ws)
  have nd: "\<not> N dvd checkpoint st + 1"
    using Cons.prems by (auto dest!: zdvd_imp_le)
  have step: "checkpoint_run E d w st = Inr (st\<lparr>checkpoint := checkpoint st + 1\<rparr>)"
    using Cons.prems nd by (subst checkpoint_run_step[of N]) auto
  show ?case
    using Cons.prems Cons.IH[of "st\<lparr>checkpoint := checkpoint st + 1\<rparr>"] step
    by (simp add: add.assoc)
qed

lemma run_ticks_snoc:
  "run_ticks E d (ws @ [w]) st =
     (case run_ticks E d ws st of Inl x \<Rightarrow> Inl x | Inr st' \<Rightarrow> checkpoint_run E d w st')"
  by (induction ws arbitrary: st) (auto split: sum.splits)

lemma foldl_stopped:
  "foldl (\<lambda>r p. case r of Inl x \<Rightarrow> Inl x | Inr s \<Rightarrow> run_action E d w p s) (Inl x) ps = Inl x"
  by (induction ps) auto

lemma run_from_foldl:
  "run_from E d w ps st =
     foldl (\<lambda>r p. case r of Inl x \<Rightarrow> Inl x | Inr s \<Rightarrow> run_action E d w p s) (Inr st) ps"
proof (induction ps arbitrary: st)
  case Nil
  then show ?case by simp
next
  case (Cons p ps)
  then show ?case
    by (cases "run_action E d w p st") (simp_all add: foldl_stopped)
qed

lemma run_from_dots:
  "list_all (\<lambda>p. opcode p = cop_dot) ps \<Longrightarrow>
     run_from E d w ps st
       = Inr (st\<lparr>trace := trace st @ replicate (length ps) (Fwrite Stdlis ''.'')\<rparr>)"
proof (induction ps arbitrary: st)
  case Nil
  then show ?case by simp
next
  case (Cons p ps)
  then show ?case
    by (simp add: run_action_def replicate_app_Cons_same)
qed

text \<open>
  Claim C1. With a positive interval \<open>N\<close> and a counter in the range it has before
  \<^verbatim>\<open>intmax_t\<close> overflows, a call adds one to the counter and runs the whole action
  list once exactly when the new counter is a multiple of \<open>N\<close> (it is never zero);
  starting from counter zero, the first \<open>N - 1\<close> calls change nothing but the counter and
  call \<open>N\<close> runs the list; with interval zero the call changes nothing. Running the
  list is running every action of it, from the first to the last, each one once and on
  the state its predecessor left, up to the first fault: a list of \<open>n\<close> dot actions
  writes \<open>n\<close> dots.
\<close>

theorem checkpoint_run_every_nth:
  "(0 < N \<and> checkpoint_option st = N \<and> 0 \<le> checkpoint st \<and> checkpoint st < 2 ^ 63 - 1 \<longrightarrow>
      checkpoint_run E d w st =
        (if checkpoint st + 1 \<noteq> 0 \<and> N dvd checkpoint st + 1
         then run_checkpoint_actions E d w (st\<lparr>checkpoint := checkpoint st + 1\<rparr>)
         else Inr (st\<lparr>checkpoint := checkpoint st + 1\<rparr>)))
   \<and> (0 < N \<and> N < 2 ^ 63 \<and> checkpoint_option st = N \<and> checkpoint st = 0
        \<and> int (length ws) = N - 1 \<longrightarrow>
        run_ticks E d ws st = Inr (st\<lparr>checkpoint := N - 1\<rparr>)
        \<and> run_ticks E d (ws @ [w]) st
            = run_checkpoint_actions E d w (st\<lparr>checkpoint := N\<rparr>))
   \<and> (checkpoint_option st = 0 \<longrightarrow> checkpoint_run E d w st = Inr st)
   \<and> run_checkpoint_actions E d w st =
       foldl (\<lambda>r p. case r of Inl x \<Rightarrow> Inl x | Inr s \<Rightarrow> run_action E d w p s)
         (Inr st) (checkpoint_action st)
   \<and> (list_all (\<lambda>p. opcode p = cop_dot) (checkpoint_action st) \<longrightarrow>
        run_checkpoint_actions E d w st
          = Inr (st\<lparr>trace := trace st
                   @ replicate (length (checkpoint_action st)) (Fwrite Stdlis ''.'')\<rparr>))"
proof (intro conjI impI)
  assume "0 < N \<and> checkpoint_option st = N \<and> 0 \<le> checkpoint st \<and> checkpoint st < 2 ^ 63 - 1"
  then show "checkpoint_run E d w st =
        (if checkpoint st + 1 \<noteq> 0 \<and> N dvd checkpoint st + 1
         then run_checkpoint_actions E d w (st\<lparr>checkpoint := checkpoint st + 1\<rparr>)
         else Inr (st\<lparr>checkpoint := checkpoint st + 1\<rparr>))"
    by (intro checkpoint_run_step) auto
next
  assume a: "0 < N \<and> N < 2 ^ 63 \<and> checkpoint_option st = N \<and> checkpoint st = 0
        \<and> int (length ws) = N - 1"
  then show q: "run_ticks E d ws st = Inr (st\<lparr>checkpoint := N - 1\<rparr>)"
    using run_ticks_quiet[of N st ws E d] by simp
  have "checkpoint_run E d w (st\<lparr>checkpoint := N - 1\<rparr>)
          = run_checkpoint_actions E d w (st\<lparr>checkpoint := N\<rparr>)"
    using a by (subst checkpoint_run_step[of N]) auto
  then show "run_ticks E d (ws @ [w]) st = run_checkpoint_actions E d w (st\<lparr>checkpoint := N\<rparr>)"
    using q by (simp add: run_ticks_snoc)
next
  assume "checkpoint_option st = 0"
  then show "checkpoint_run E d w st = Inr st" by (simp add: checkpoint_run_def)
next
  show "run_checkpoint_actions E d w st =
       foldl (\<lambda>r p. case r of Inl x \<Rightarrow> Inl x | Inr s \<Rightarrow> run_action E d w p s)
         (Inr st) (checkpoint_action st)"
    by (simp add: run_checkpoint_actions_def run_from_foldl)
next
  assume "list_all (\<lambda>p. opcode p = cop_dot) (checkpoint_action st)"
  then show "run_checkpoint_actions E d w st
          = Inr (st\<lparr>trace := trace st
                   @ replicate (length (checkpoint_action st)) (Fwrite Stdlis ''.'')\<rparr>)"
    by (simp add: run_checkpoint_actions_def run_from_dots)
qed

theorem checkpoint_run_every_nth_witness:
  "run_ticks extern0 1 [True, True, True, True]
       ((initial 5 {})\<lparr>checkpoint_action := [\<lparr>opcode = cop_dot, v = V_zero\<rparr>,
                                               \<lparr>opcode = cop_sleep, v = V_time 3\<rparr>,
                                               \<lparr>opcode = cop_dot, v = V_zero\<rparr>]\<rparr>)
     = Inr ((initial 5 {})\<lparr>checkpoint_action := [\<lparr>opcode = cop_dot, v = V_zero\<rparr>,
                                                     \<lparr>opcode = cop_sleep, v = V_time 3\<rparr>,
                                                     \<lparr>opcode = cop_dot, v = V_zero\<rparr>],
                             checkpoint := 4\<rparr>)
   \<and> run_ticks extern0 1 [True, True, True, True, True]
       ((initial 5 {})\<lparr>checkpoint_action := [\<lparr>opcode = cop_dot, v = V_zero\<rparr>,
                                               \<lparr>opcode = cop_sleep, v = V_time 3\<rparr>,
                                               \<lparr>opcode = cop_dot, v = V_zero\<rparr>]\<rparr>)
     = Inr ((initial 5 {})\<lparr>checkpoint_action := [\<lparr>opcode = cop_dot, v = V_zero\<rparr>,
                                                     \<lparr>opcode = cop_sleep, v = V_time 3\<rparr>,
                                                     \<lparr>opcode = cop_dot, v = V_zero\<rparr>],
                             checkpoint := 5,
                             trace := [Fwrite Stdlis ''.'', Sleep 3, Fwrite Stdlis ''.'']\<rparr>)
   \<and> checkpoint_run extern0 1 True
       ((initial 0 {})\<lparr>checkpoint_action := [\<lparr>opcode = cop_dot, v = V_zero\<rparr>,
                                               \<lparr>opcode = cop_dot, v = V_zero\<rparr>]\<rparr>)
     = Inr ((initial 0 {})\<lparr>checkpoint_action := [\<lparr>opcode = cop_dot, v = V_zero\<rparr>,
                                                     \<lparr>opcode = cop_dot, v = V_zero\<rparr>]\<rparr>)
   \<and> run_checkpoint_actions extern0 1 True
       ((initial 0 {})\<lparr>checkpoint_action := [\<lparr>opcode = cop_dot, v = V_zero\<rparr>,
                                               \<lparr>opcode = cop_dot, v = V_zero\<rparr>]\<rparr>)
     = Inr ((initial 0 {})\<lparr>checkpoint_action := [\<lparr>opcode = cop_dot, v = V_zero\<rparr>,
                                                     \<lparr>opcode = cop_dot, v = V_zero\<rparr>],
                             trace := [Fwrite Stdlis ''.'', Fwrite Stdlis ''.'']\<rparr>)"
proof -
  note a = checkpoint_run_every_nth
      [where N = 5 and E = extern0 and d = 1 and w = True
         and ws = "[True, True, True, True]"
         and st = "(initial 5 {})\<lparr>checkpoint_action := [\<lparr>opcode = cop_dot, v = V_zero\<rparr>,
                                               \<lparr>opcode = cop_sleep, v = V_time 3\<rparr>,
                                               \<lparr>opcode = cop_dot, v = V_zero\<rparr>]\<rparr>"]
  note b = checkpoint_run_every_nth
      [where N = 5 and E = extern0 and d = 1 and w = True and ws = "[]"
         and st = "(initial 0 {})\<lparr>checkpoint_action := [\<lparr>opcode = cop_dot, v = V_zero\<rparr>,
                                               \<lparr>opcode = cop_dot, v = V_zero\<rparr>]\<rparr>"]
  note c = checkpoint_run_every_nth
      [where N = 5 and E = extern0 and d = 1 and w = True and ws = "[]"
         and st = "(initial 5 {})\<lparr>checkpoint_action := [\<lparr>opcode = cop_dot, v = V_zero\<rparr>,
                                               \<lparr>opcode = cop_sleep, v = V_time 3\<rparr>,
                                               \<lparr>opcode = cop_dot, v = V_zero\<rparr>],
                                 checkpoint := 5\<rparr>"]
  show ?thesis
    using a b c
    by (simp add: initial_def run_action_def v_time_def numeral_2_eq_2 del: run_ticks.simps)
qed

subsection \<open>Compiling\<close>

lemma set_tail_v_alloc:
  "set_tail_v x (alloc_action opc st)
     = st\<lparr>checkpoint_action := checkpoint_action st @ [\<lparr>opcode = opc, v = x\<rparr>]\<rparr>"
  by (simp add: set_tail_v_def alloc_action_def)

lemma alloc_action_program:
  "checkpoint_action (alloc_action opc st) = checkpoint_action st @ [\<lparr>opcode = opc, v = V_zero\<rparr>]"
  by (simp add: alloc_action_def)

lemma compile_action_shape:
  "checkpoint_compile_action E s st =
     (case checkpoint_compile_action E s (initial 0 {}) of
        Inl x \<Rightarrow> Inl x
      | Inr t \<Rightarrow>
          Inr (st\<lparr>checkpoint_action := checkpoint_action st @ checkpoint_action t,
                  sigs := (if checkpoint_state st = CHKP_INIT then {} else sigs st) \<union> sigs t,
                  checkpoint_state := (if checkpoint_state st = CHKP_INIT then CHKP_COMPILE
                                     else checkpoint_state st)\<rparr>))"
  unfolding checkpoint_compile_action_def Let_def initial_def
  by (simp add: set_tail_v_def alloc_action_def split: prod.split)


lemma compile_action_length:
  "checkpoint_compile_action E s st = Inr st' \<Longrightarrow>
     length (checkpoint_action st') = Suc (length (checkpoint_action st))"
  unfolding checkpoint_compile_action_def Let_def
  by (auto simp: set_tail_v_def alloc_action_def split: prod.split_asm if_split_asm)

lemma compiled_alone_length:
  "checkpoint_compile_action E s st = Inr st' \<Longrightarrow> length (compiled_alone E s) = 1"
proof -
  assume a: "checkpoint_compile_action E s st = Inr st'"
  then obtain t where t: "checkpoint_compile_action E s (initial 0 {}) = Inr t"
    by (subst (asm) compile_action_shape) (auto split: sum.splits)
  show ?thesis using compile_action_length[OF t] t
    by (simp add: compiled_alone_def initial_def)
qed

lemma compile_action_appends:
  assumes "checkpoint_compile_action E s st = Inr st'"
  shows "checkpoint_action st' = checkpoint_action st @ compiled_alone E s
         \<and> length (compiled_alone E s) = 1
         \<and> checkpoint_option st' = checkpoint_option st
         \<and> trace st' = trace st \<and> sigmask st' = sigmask st
         \<and> checkpoint st' = checkpoint st
         \<and> checkpoint_state st' = (if checkpoint_state st = CHKP_INIT then CHKP_COMPILE
                                     else checkpoint_state st)"
proof -
  from assms obtain t where t: "checkpoint_compile_action E s (initial 0 {}) = Inr t"
    by (subst (asm) compile_action_shape) (auto split: sum.splits)
  have "st' = st\<lparr>checkpoint_action := checkpoint_action st @ checkpoint_action t,
                  sigs := (if checkpoint_state st = CHKP_INIT then {} else sigs st) \<union> sigs t,
                  checkpoint_state := (if checkpoint_state st = CHKP_INIT then CHKP_COMPILE
                                     else checkpoint_state st)\<rparr>"
    using assms t by (subst (asm) compile_action_shape) simp
  then show ?thesis using t compiled_alone_length[OF assms]
    by (simp add: compiled_alone_def)
qed


lemma compile_all_appends:
  "compile_all E specs st = Inr st' \<Longrightarrow>
     checkpoint_action st' = checkpoint_action st @ concat (map (compiled_alone E) specs)
     \<and> length (concat (map (compiled_alone E) specs)) = length specs
     \<and> checkpoint_option st' = checkpoint_option st
     \<and> trace st' = trace st \<and> sigmask st' = sigmask st
     \<and> checkpoint st' = checkpoint st
     \<and> checkpoint_state st' = (if specs \<noteq> [] \<and> checkpoint_state st = CHKP_INIT then CHKP_COMPILE
                                     else checkpoint_state st)"
proof (induction specs arbitrary: st)
  case Nil
  then show ?case by simp
next
  case (Cons s ss)
  from Cons.prems obtain st1 where
    1: "checkpoint_compile_action E s st = Inr st1" and 2: "compile_all E ss st1 = Inr st'"
    by (auto split: sum.splits)
  show ?case
    using compile_action_appends[OF 1] Cons.IH[OF 2] by (auto split: if_splits)
qed

lemma finish_compile_cases:
  "checkpoint_finish_compile E st =
     (if checkpoint_state st = CHKP_INIT \<and> checkpoint_option st \<noteq> 0 \<and> checkpoint_action st = []
      then Inr (st\<lparr>sigs := {}, checkpoint_action := [\<lparr>opcode = cop_echo, v = V_zero\<rparr>],
                  trace := trace st @ [Sigprocmask_block {}],
                  checkpoint_state := CHKP_RUN\<rparr>)
      else if checkpoint_state st = CHKP_COMPILE
      then Inr (st\<lparr>sigmask := sigmask st \<union> (sigs st - unblockable E),
                  trace := trace st @ [Sigprocmask_block (sigs st)],
                  checkpoint_option :=
                    (if checkpoint_option st = 0 then DEFAULT_CHECKPOINT E
                     else checkpoint_option st),
                  checkpoint_state := CHKP_RUN\<rparr>)
      else Inr st)"
  by (simp add: checkpoint_finish_compile_def checkpoint_compile_action_def alloc_action_def)

text \<open>
  Claim C5. When every string of the configuration is accepted, finishing the
  compilation succeeds and leaves the records of the strings, one for each and in their
  order; with no string at all and a nonzero interval it leaves the single record of an
  \<^verbatim>\<open>echo\<close> without text instead; and a second call of
  \<^verbatim>\<open>checkpoint_finish_compile\<close> changes nothing.
\<close>

theorem program_is_specs_in_order:
  assumes "compile_all E specs (initial opt blocked) = Inr st"
  shows "\<exists>st'. checkpoint_finish_compile E st = Inr st'
          \<and> checkpoint_action st' =
               (if specs = [] \<and> opt \<noteq> 0 then [\<lparr>opcode = cop_echo, v = V_zero\<rparr>]
                else concat (map (compiled_alone E) specs))
          \<and> (specs = [] \<and> opt \<noteq> 0 \<or> length (checkpoint_action st') = length specs)
          \<and> checkpoint_finish_compile E st' = Inr st'"
proof -
  note a = compile_all_appends[OF assms]
  show ?thesis
  proof (cases "specs = []")
    case True
    then have "st = initial opt blocked" using assms by simp
    then show ?thesis using True
      by (simp add: finish_compile_cases initial_def)
  next
    case False
    then have "checkpoint_state st = CHKP_COMPILE" using a by (simp add: initial_def)
    then show ?thesis using a False
      by (simp add: finish_compile_cases initial_def)
  qed
qed

theorem program_is_specs_in_order_witness:
  "compile_all extern0 [''dot'', ''sleep=12'', ''echo=hi''] (initial 5 {})
     = Inr ((initial 5 {})\<lparr>checkpoint_state := CHKP_COMPILE,
             checkpoint_action := [\<lparr>opcode = cop_dot, v = V_zero\<rparr>,
                                   \<lparr>opcode = cop_sleep, v = V_time 12\<rparr>,
                                   \<lparr>opcode = cop_echo, v = V_command ''hi''\<rparr>]\<rparr>)
   \<and> (\<exists>st'. checkpoint_finish_compile extern0
               ((initial 5 {})\<lparr>checkpoint_state := CHKP_COMPILE,
                 checkpoint_action := [\<lparr>opcode = cop_dot, v = V_zero\<rparr>,
                                       \<lparr>opcode = cop_sleep, v = V_time 12\<rparr>,
                                       \<lparr>opcode = cop_echo, v = V_command ''hi''\<rparr>]\<rparr>) = Inr st'
          \<and> length (checkpoint_action st') = 3)
   \<and> (\<exists>st'. checkpoint_finish_compile extern0 (initial 5 {}) = Inr st'
          \<and> checkpoint_action st' = [\<lparr>opcode = cop_echo, v = V_zero\<rparr>])"
proof -
  have e: "compile_all extern0 [] (initial 5 {}) = Inr (initial 5 {})" by simp
  have c: "compile_all extern0 [''dot'', ''sleep=12'', ''echo=hi''] (initial 5 {})
     = Inr ((initial 5 {})\<lparr>checkpoint_state := CHKP_COMPILE,
             checkpoint_action := [\<lparr>opcode = cop_dot, v = V_zero\<rparr>,
                                   \<lparr>opcode = cop_sleep, v = V_time 12\<rparr>,
                                   \<lparr>opcode = cop_echo, v = V_command ''hi''\<rparr>]\<rparr>)"
    by (simp add: checkpoint_compile_action_def initial_def extern0_def stoint_spec_def
          is_digit_def decimal_value_def digit_value_def INTMAX_MAX_def alloc_action_def
          set_tail_v_def copy_string_unquote_def strip_quote_pair_def)
  show ?thesis using program_is_specs_in_order[OF c] program_is_specs_in_order[OF e] c by auto
qed

lemma stoint_spec_end:
  "(snd (stoint_spec arg maxval) = 0 \<or> snd (stoint_spec arg maxval) \<noteq> length arg)
     = (\<not> valid_duration maxval arg)"
proof (cases "list_all is_digit arg")
  case True
  then have tw: "takeWhile is_digit arg = arg"
    by (simp add: list_all_iff)
  show ?thesis unfolding stoint_spec_def Let_def tw using True
    by (auto simp: valid_duration_def)
next
  case False
  then have "takeWhile is_digit arg \<noteq> arg"
    by (auto simp: list_all_iff takeWhile_eq_all_conv)
  then have "length (takeWhile is_digit arg) \<noteq> length arg"
    by (metis takeWhile_eq_take take_all_iff length_takeWhile_le)
  then show ?thesis using False
    by (auto simp: stoint_spec_def valid_duration_def Let_def)
qed

lemma sleep_prefix: "take 6 str = ''sleep='' \<Longrightarrow> \<exists>rest. str = ''sleep='' @ rest"
  by (metis append_take_drop_id)

lemma unlisted_unknown:
  "\<not> listed_form str \<Longrightarrow> checkpoint_compile_action E str st = Inl (Unknown_checkpoint_action str)"
  by (simp add: listed_form_def checkpoint_compile_action_def Let_def)

lemma sleep_fatal_by_end_pointer:
  assumes "take 6 str = ''sleep=''"
  shows "isl (checkpoint_compile_action E str st)
           = (snd (stoint E (drop 6 str) (TIME_T_MAX E)) = 0
              \<or> snd (stoint E (drop 6 str) (TIME_T_MAX E)) \<noteq> length (drop 6 str))"
proof -
  from sleep_prefix[OF assms] obtain rest where r: "str = ''sleep='' @ rest" by blast
  show ?thesis
    by (cases "stoint E rest (TIME_T_MAX E)")
       (auto simp: r checkpoint_compile_action_def Let_def)
qed

lemma sleep_compile:
  assumes "take 6 str = ''sleep=''"
  shows "checkpoint_compile_action (E\<lparr>stoint := stoint_spec\<rparr>) str st =
           (if valid_duration (TIME_T_MAX E) (drop 6 str)
            then Inr (set_tail_v (V_time (decimal_value (drop 6 str)))
                        (alloc_action cop_sleep
                           (if checkpoint_state st = CHKP_INIT
                            then st\<lparr>sigs := {}, checkpoint_state := CHKP_COMPILE\<rparr> else st)))
            else Inl (Not_a_valid_timeout str))"
proof -
  from sleep_prefix[OF assms] obtain rest where r: "str = ''sleep='' @ rest" by blast
  have v: "stoint_spec rest (TIME_T_MAX E) = (decimal_value rest, length rest)"
    if "valid_duration (TIME_T_MAX E) rest"
  proof -
    from that have tw: "takeWhile is_digit rest = rest"
      by (simp add: valid_duration_def list_all_iff)
    show ?thesis unfolding stoint_spec_def Let_def tw using that
      by (auto simp: valid_duration_def)
  qed
  show ?thesis
    using stoint_spec_end[of rest "TIME_T_MAX E"] v
    by (cases "stoint_spec rest (TIME_T_MAX E)")
       (auto simp: r checkpoint_compile_action_def Let_def)
qed

lemma listed_not_sleep_accepted:
  "listed_form str \<Longrightarrow> take 6 str \<noteq> ''sleep='' \<Longrightarrow> \<exists>st'. checkpoint_compile_action E str st = Inr st'"
  by (auto simp: listed_form_def checkpoint_compile_action_def Let_def)

text \<open>
  Claim C7. With \<^verbatim>\<open>stoint\<close> as the specification describes it, compiling a string
  ends in a fatal error exactly when the string has none of the listed forms, and then
  the error names the string, or when it starts with \<^verbatim>\<open>sleep=\<close> and the rest is
  not a non-empty run of decimal digits with a value up to the maximum of
  \<^verbatim>\<open>time_t\<close>; every other string of a listed form is accepted.
\<close>

theorem compile_action_fatal_iff:
  "(isl (checkpoint_compile_action (E\<lparr>stoint := stoint_spec\<rparr>) str st)
      = (\<not> listed_form str
         \<or> take 6 str = ''sleep='' \<and> \<not> valid_duration (TIME_T_MAX E) (drop 6 str)))
   \<and> (\<not> listed_form str \<longrightarrow>
        checkpoint_compile_action (E\<lparr>stoint := stoint_spec\<rparr>) str st
          = Inl (Unknown_checkpoint_action str))
   \<and> (take 6 str = ''sleep='' \<and> \<not> valid_duration (TIME_T_MAX E) (drop 6 str) \<longrightarrow>
        checkpoint_compile_action (E\<lparr>stoint := stoint_spec\<rparr>) str st
          = Inl (Not_a_valid_timeout str))"
proof (cases "listed_form str")
  case False
  then show ?thesis
    using unlisted_unknown[of str "E\<lparr>stoint := stoint_spec\<rparr>" st]
    by (auto simp: listed_form_def)
next
  case True
  show ?thesis
  proof (cases "take 6 str = ''sleep=''")
    case s: True
    show ?thesis using True sleep_compile[OF s, of E st] s by auto
  next
    case n: False
    show ?thesis
      using True n listed_not_sleep_accepted[OF True n, of "E\<lparr>stoint := stoint_spec\<rparr>" st]
      by auto
  qed
qed

theorem compile_action_fatal_iff_witness:
  "checkpoint_compile_action (extern0\<lparr>stoint := stoint_spec\<rparr>) ''beep'' (initial 5 {})
      = Inl (Unknown_checkpoint_action ''beep'')
   \<and> checkpoint_compile_action (extern0\<lparr>stoint := stoint_spec\<rparr>) ''sleep=1x'' (initial 5 {})
      = Inl (Not_a_valid_timeout ''sleep=1x'')
   \<and> \<not> isl (checkpoint_compile_action (extern0\<lparr>stoint := stoint_spec\<rparr>) ''sleep=30'' (initial 5 {}))
   \<and> \<not> isl (checkpoint_compile_action (extern0\<lparr>stoint := stoint_spec\<rparr>) ''wait=USR1'' (initial 5 {}))"
  using compile_action_fatal_iff[of extern0 "''beep''" "initial 5 {}"]
    compile_action_fatal_iff[of extern0 "''sleep=1x''" "initial 5 {}"]
    compile_action_fatal_iff[of extern0 "''sleep=30''" "initial 5 {}"]
    compile_action_fatal_iff[of extern0 "''wait=USR1''" "initial 5 {}"]
  by (simp add: listed_form_def valid_duration_def is_digit_def decimal_value_def
        digit_value_def extern0_def INTMAX_MAX_def)

subsection \<open>The scan of the interpreter\<close>

lemma char_at_shift: "char_at (pre @ inp) (length pre + k) = char_at inp k"
  by (simp add: char_at_def nth_append)

lemma getarg_shift:
  "getarg (pre @ inp) (length pre + k) = map_option (\<lambda>(a, e). (a, length pre + e)) (getarg inp k)"
  by (simp add: getarg_def Let_def nth_append)

lemma fetch_shift:
  "ip < length inp \<Longrightarrow> fetch inp ip = (x, e) \<Longrightarrow>
     fetch (pre @ inp) (length pre + ip) = (x, length pre + e)"
  using char_at_shift[of pre inp "Suc ip"] getarg_shift[of pre inp "Suc ip"]
  by (auto simp: fetch_def nth_append char_at_shift split: if_splits option.splits)

lemma fcs_shift:
  "fcs E d w cpn fp (pre @ inp) (length pre + ip) st = fcs E d w cpn fp inp ip st"
proof (induction E d w cpn fp inp ip st rule: fcs.induct)
  case (1 E d w cpn fp inp ip st)
  show ?case
  proof (cases "length inp \<le> ip")
    case True
    then show ?thesis by (simp add: fcs.simps)
  next
    case False
    obtain x e where f: "fetch inp ip = (x, e)" by force
    from False f have f': "fetch (pre @ inp) (length pre + ip) = (x, length pre + e)"
      by (intro fetch_shift) auto
    have l: "fcs E d w cpn fp (pre @ inp) (length pre + ip) st =
        (case x of
           Literal c \<Rightarrow> fcs E d w cpn fp (pre @ inp) (length pre + Suc e) (put_literal c st)
         | Unclosed \<Rightarrow>
             fcs E d w cpn fp (pre @ inp) (length pre + Suc e) (emit [CHR ''%'', CHR ''{''] st)
         | Directive l arg \<Rightarrow>
             if l = CHR ''c'' then
               (case d of
                  0 \<Rightarrow> Inl Stack_exhausted
                | Suc d' \<Rightarrow>
                    (case fcs E d' w cpn fp def_format 0 st of
                       Inl x \<Rightarrow> Inl x
                     | Inr st1 \<Rightarrow>
                         fcs E d w cpn fp (pre @ inp) (length pre + Suc e)
                           (st1\<lparr>len := len st + len st1\<rparr>)))
             else fcs E d w cpn fp (pre @ inp) (length pre + Suc e)
                    (directive E w cpn fp l arg st))"
      using False by (subst fcs.simps) (simp add: f' split: item.splits nat.splits sum.splits)
    have r: "fcs E d w cpn fp inp ip st =
        (case x of
           Literal c \<Rightarrow> fcs E d w cpn fp inp (Suc e) (put_literal c st)
         | Unclosed \<Rightarrow>
             fcs E d w cpn fp inp (Suc e) (emit [CHR ''%'', CHR ''{''] st)
         | Directive l arg \<Rightarrow>
             if l = CHR ''c'' then
               (case d of
                  0 \<Rightarrow> Inl Stack_exhausted
                | Suc d' \<Rightarrow>
                    (case fcs E d' w cpn fp def_format 0 st of
                       Inl x \<Rightarrow> Inl x
                     | Inr st1 \<Rightarrow>
                         fcs E d w cpn fp inp (Suc e)
                           (st1\<lparr>len := len st + len st1\<rparr>)))
             else fcs E d w cpn fp inp (Suc e)
                    (directive E w cpn fp l arg st))"
      using False by (subst fcs.simps) (simp add: f split: item.splits)
    show ?thesis
      unfolding l r using False f "1.IH"
      by (auto split: item.splits nat.splits sum.splits)
  qed
qed

subsection \<open>Finding a directive\<close>

lemma getarg_closed:
  "CHR ''}'' \<notin> set a \<Longrightarrow>
     getarg (pre @ CHR ''{'' # a @ CHR ''}'' # post) (length pre) = Some (a, length pre + length a + 2)"
proof -
  assume a: "CHR ''}'' \<notin> set a"
  have tw: "takeWhile (\<lambda>c. c \<noteq> CHR ''}'') (a @ CHR ''}'' # post) = a"
    using a by (induction a) auto
  show ?thesis
    unfolding getarg_def Let_def by (simp add: nth_append tw)
qed

lemma fetch_with_arg:
  "CHR ''}'' \<notin> set a \<Longrightarrow>
     fetch (CHR ''%'' # CHR ''{'' # a @ CHR ''}'' # post) 0
       = (Directive (char_at post 0) (Some a), length a + 3)"
  using getarg_closed[of a "[CHR ''%'']" post]
  by (simp add: fetch_def char_at_def nth_append)

lemma fetch_no_arg:
  "l \<noteq> CHR ''{'' \<Longrightarrow> fetch (CHR ''%'' # l # post) 0 = (Directive l None, 1)"
  by (simp add: fetch_def char_at_def)

lemma fcs_end: "ip = length inp \<Longrightarrow> fcs E d w cpn fp inp ip st = Inr st"
  by (simp add: fcs.simps)

subsection \<open>The interpreter, item by item\<close>

lemma fcs_nil: "fcs E d w cpn fp [] 0 st = Inr st"
  by (simp add: fcs.simps)

lemma fcs_drop:
  "k \<le> length inp \<Longrightarrow> fcs E d w cpn fp inp k st = fcs E d w cpn fp (drop k inp) 0 st"
  using fcs_shift[of E d w cpn fp "take k inp" "drop k inp" 0 st] by simp

lemma fcs_literal:
  "c \<noteq> CHR ''%'' \<Longrightarrow>
     fcs E d w cpn fp (c # post) 0 st = fcs E d w cpn fp post 0 (put_literal c st)"
  by (subst fcs.simps) (simp add: fetch_def fcs_drop[where k = "Suc 0"])

lemma fcs_directive:
  "l \<noteq> CHR ''{'' \<Longrightarrow> l \<noteq> CHR ''c'' \<Longrightarrow>
     fcs E d w cpn fp (CHR ''%'' # l # post) 0 st
       = fcs E d w cpn fp post 0 (directive E w cpn fp l None st)"
  by (subst fcs.simps) (simp add: fetch_no_arg fcs_drop[where k = "Suc (Suc 0)"])

lemma fcs_directive_arg:
  assumes "CHR ''}'' \<notin> set a" "l \<noteq> CHR ''c''"
  shows "fcs E d w cpn fp (CHR ''%'' # CHR ''{'' # a @ CHR ''}'' # l # post) 0 st
       = fcs E d w cpn fp post 0 (directive E w cpn fp l (Some a) st)"
proof -
  have f: "fetch (CHR ''%'' # CHR ''{'' # a @ CHR ''}'' # l # post) 0
             = (Directive l (Some a), length a + 3)"
    using fetch_with_arg[OF assms(1), of "l # post"] by (simp add: char_at_def)
  have dr: "drop (4 + length a) (CHR ''%'' # CHR ''{'' # a @ CHR ''}'' # l # post) = post"
    using drop_all[of "CHR ''%'' # CHR ''{'' # a @ [CHR ''}'', l]"]
      drop_append[of "4 + length a" "CHR ''%'' # CHR ''{'' # a @ [CHR ''}'', l]" post]
    by simp
  show ?thesis
    by (subst fcs.simps) (simp add: f assms(2) fcs_drop[where k = "4 + length a"] dr)
qed

lemma fcs_c:
  "fcs E d w cpn fp (CHR ''%'' # CHR ''c'' # post) 0 st =
     (case d of
        0 \<Rightarrow> Inl Stack_exhausted
      | Suc d' \<Rightarrow>
          (case fcs E d' w cpn fp def_format 0 st of
             Inl x \<Rightarrow> Inl x
           | Inr st1 \<Rightarrow> fcs E d w cpn fp post 0 (st1\<lparr>len := len st + len st1\<rparr>)))"
  by (subst fcs.simps)
     (simp add: fetch_no_arg fcs_drop[where k = "Suc (Suc 0)"] split: nat.splits sum.splits)

lemma fcs_trailing_percent:
  "fcs E d w cpn fp [CHR ''%''] 0 st = Inl Read_past_terminator"
  by (subst fcs.simps, simp add: fetch_def char_at_def, subst fcs.simps, simp)

lemma fcs_trailing_arg:
  assumes "CHR ''}'' \<notin> set a"
  shows "fcs E d w cpn fp (CHR ''%'' # CHR ''{'' # a @ [CHR ''}'']) 0 st = Inl Read_past_terminator"
proof -
  have f: "fetch (CHR ''%'' # CHR ''{'' # a @ [CHR ''}'']) 0
             = (Directive (CHR 0x00) (Some a), length a + 3)"
    using fetch_with_arg[OF assms(1), of "[]"] by (simp add: char_at_def)
  have r: "fcs E d w cpn fp (CHR ''%'' # CHR ''{'' # a @ [CHR ''}''])
             (4 + length a) st' = Inl Read_past_terminator" for st'
    by (subst fcs.simps) simp
  show ?thesis
    by (subst fcs.simps) (simp add: f r)
qed

subsection \<open>Nested rendering\<close>

lemma fetch_letter:
  "ip < length inp \<Longrightarrow> fetch inp ip = (Directive l arg, e) \<Longrightarrow> l = CHR 0x00 \<or> l \<in> set inp"
  by (auto simp: fetch_def char_at_def getarg_def Let_def split: if_splits option.splits)

lemma fcs_unfold_no_c:
  assumes "ip < length inp" "fetch inp ip = (x, e)"
    "\<And>l arg. x = Directive l arg \<Longrightarrow> l \<noteq> CHR ''c''"
  shows "fcs E d w cpn fp inp ip st =
           fcs E d w cpn fp inp (Suc e)
             (case x of
                Literal c \<Rightarrow> put_literal c st
              | Unclosed \<Rightarrow> emit [CHR ''%'', CHR ''{''] st
              | Directive l arg \<Rightarrow> directive E w cpn fp l arg st)"
  using assms by (subst fcs.simps) (simp split: item.splits)

lemma no_c_no_recursion:
  "CHR ''c'' \<notin> set inp \<Longrightarrow>
     fcs E d w cpn fp inp ip st = fcs E 0 w cpn fp inp ip st
     \<and> fcs E d w cpn fp inp ip st \<noteq> Inl Stack_exhausted"
proof (induction E d w cpn fp inp ip st rule: fcs.induct)
  case (1 E d w cpn fp inp ip st)
  show ?case
  proof (cases "length inp \<le> ip")
    case True
    then show ?thesis by (simp add: fcs.simps)
  next
    case False
    obtain x e where f: "fetch inp ip = (x, e)" by force
    have nc: "l \<noteq> CHR ''c''" if "x = Directive l arg" for l arg
      using fetch_letter[of ip inp l arg e] False f that "1.prems" by auto
    from False have lt: "ip < length inp" by simp
    note u = fcs_unfold_no_c[OF lt f nc]
    have ud: "fcs E d w cpn fp inp ip st =
           fcs E d w cpn fp inp (Suc e)
             (case x of
                Literal c \<Rightarrow> put_literal c st
              | Unclosed \<Rightarrow> emit [CHR ''%'', CHR ''{''] st
              | Directive l arg \<Rightarrow> directive E w cpn fp l arg st)"
      by (rule fcs_unfold_no_c[OF lt f nc])
    have u0: "fcs E 0 w cpn fp inp ip st =
           fcs E 0 w cpn fp inp (Suc e)
             (case x of
                Literal c \<Rightarrow> put_literal c st
              | Unclosed \<Rightarrow> emit [CHR ''%'', CHR ''{''] st
              | Directive l arg \<Rightarrow> directive E w cpn fp l arg st)"
      by (rule fcs_unfold_no_c[OF lt f nc])
    have nl: "\<not> length inp < ip" and ne: "ip \<noteq> length inp"
      using False by auto
    show ?thesis
    proof (cases x)
      case (Literal c)
      show ?thesis
        unfolding ud u0 using "1.IH"(1)[OF nl ne f[symmetric] Literal "1.prems"]
        by (auto simp: Literal)
    next
      case Unclosed
      show ?thesis
        unfolding ud u0 using "1.IH"(2)[OF nl ne f[symmetric] Unclosed "1.prems"]
        by (auto simp: Unclosed)
    next
      case (Directive l arg)
      show ?thesis
        unfolding ud u0
        using "1.IH"(5)[OF nl ne f[symmetric] Directive nc[OF Directive] "1.prems"]
        by (auto simp: Directive)
    qed
  qed
qed


lemma def_format_no_c: "CHR ''c'' \<notin> set def_format"
  by (simp add: def_format_def)

lemma fcs_unfold_c:
  "ip < length inp \<Longrightarrow> fetch inp ip = (Directive (CHR ''c'') arg, e) \<Longrightarrow>
     fcs E (Suc n) w cpn fp inp ip st =
       (case fcs E n w cpn fp def_format 0 st of
          Inl x \<Rightarrow> Inl x
        | Inr b \<Rightarrow> fcs E (Suc n) w cpn fp inp (Suc e) (b\<lparr>len := len st + len b\<rparr>))"
  by (subst fcs.simps) (simp split: sum.splits)

lemma one_level_enough:
  "0 < d \<Longrightarrow>
     fcs E d w cpn fp inp ip st = fcs E (Suc 0) w cpn fp inp ip st
     \<and> fcs E d w cpn fp inp ip st \<noteq> Inl Stack_exhausted"
proof (induction E d w cpn fp inp ip st rule: fcs.induct)
  case (1 E d w cpn fp inp ip st)
  show ?case
  proof (cases "length inp \<le> ip")
    case True
    then show ?thesis by (simp add: fcs.simps)
  next
    case False
    obtain x e where f: "fetch inp ip = (x, e)" by force
    from False have lt: "ip < length inp" by simp
    have nl: "\<not> length inp < ip" and ne: "ip \<noteq> length inp"
      using False by auto
    show ?thesis
    proof (cases "\<exists>arg. x = Directive (CHR ''c'') arg")
      case True
      then obtain arg where x: "x = Directive (CHR ''c'') arg" by blast
      from "1.prems" obtain n where d: "d = Suc n" by (cases d) auto
      note dflt = no_c_no_recursion[OF def_format_no_c, of E n w cpn fp 0 st]
      from dflt have deq: "fcs E n w cpn fp def_format 0 st = fcs E 0 w cpn fp def_format 0 st"
        and dne: "fcs E n w cpn fp def_format 0 st \<noteq> Inl Stack_exhausted" by blast+
      show ?thesis
      proof (cases "fcs E 0 w cpn fp def_format 0 st")
        case (Inl y)
        then have "y \<noteq> Stack_exhausted" using deq dne by auto
        then show ?thesis
          using Inl deq
          by (simp add: d fcs_unfold_c[OF lt f[unfolded x]])
      next
        case (Inr b)
        then have b: "fcs E n w cpn fp def_format 0 st = Inr b" using deq by simp
        show ?thesis
          using "1.IH"(4)[OF nl ne f[symmetric] x refl d b "1.prems"] Inr b
          by (auto simp: d fcs_unfold_c[OF lt f[unfolded x]])
      qed
    next
      case False
      then have nc: "l \<noteq> CHR ''c''" if "x = Directive l arg" for l arg
        using that by auto
      have ud: "fcs E d w cpn fp inp ip st =
           fcs E d w cpn fp inp (Suc e)
             (case x of
                Literal c \<Rightarrow> put_literal c st
              | Unclosed \<Rightarrow> emit [CHR ''%'', CHR ''{''] st
              | Directive l arg \<Rightarrow> directive E w cpn fp l arg st)"
        by (rule fcs_unfold_no_c[OF lt f nc])
      have u1: "fcs E (Suc 0) w cpn fp inp ip st =
           fcs E (Suc 0) w cpn fp inp (Suc e)
             (case x of
                Literal c \<Rightarrow> put_literal c st
              | Unclosed \<Rightarrow> emit [CHR ''%'', CHR ''{''] st
              | Directive l arg \<Rightarrow> directive E w cpn fp l arg st)"
        by (rule fcs_unfold_no_c[OF lt f nc])
      show ?thesis
      proof (cases x)
        case (Literal c)
        show ?thesis
          unfolding ud u1 using "1.IH"(1)[OF nl ne f[symmetric] Literal "1.prems"]
          by (auto simp: Literal)
      next
        case Unclosed
        show ?thesis
          unfolding ud u1 using "1.IH"(2)[OF nl ne f[symmetric] Unclosed "1.prems"]
          by (auto simp: Unclosed)
      next
        case (Directive l arg)
        show ?thesis
          unfolding ud u1
          using "1.IH"(5)[OF nl ne f[symmetric] Directive nc[OF Directive] "1.prems"]
          by (auto simp: Directive)
      qed
    qed
  qed
qed

text \<open>
  Claim C9. The interpreter is a total function: every pass of its loop moves the scan
  forward, and the call it makes on itself for \<^verbatim>\<open>%c\<close> is on the fixed template
  \<open>def_format\<close>, never on text of the user. That template has no letter \<open>c\<close>, so
  rendering it makes no nested call. Room for one nested call is therefore enough for
  any template: with more room the result is the same, and it is never
  \<open>Stack_exhausted\<close>.
\<close>

theorem render_needs_one_level:
  "CHR ''c'' \<notin> set def_format
   \<and> fcs E 0 w cpn fp def_format ip st \<noteq> Inl Stack_exhausted
   \<and> fcs E (Suc d) w cpn fp (CHR ''%'' # CHR ''c'' # post) 0 st =
       (case fcs E 0 w cpn fp def_format 0 st of
          Inl x \<Rightarrow> Inl x
        | Inr st1 \<Rightarrow> fcs E (Suc d) w cpn fp post 0 (st1\<lparr>len := len st + len st1\<rparr>))
   \<and> format_checkpoint_string E (Suc d) fp n input w cpn flag
       = format_checkpoint_string E (Suc 0) fp n input w cpn flag
   \<and> format_checkpoint_string E (Suc d) fp n input w cpn flag \<noteq> Inl Stack_exhausted"
proof -
  note a = no_c_no_recursion[OF def_format_no_c]
  have 1: "fcs E 0 w cpn fp def_format ip st \<noteq> Inl Stack_exhausted"
    using a[of E 0 w cpn fp ip st] by blast
  have "fcs E d w cpn fp def_format 0 st = fcs E 0 w cpn fp def_format 0 st"
    using a[of E d w cpn fp 0 st] by blast
  then have 2: "fcs E (Suc d) w cpn fp (CHR ''%'' # CHR ''c'' # post) 0 st =
       (case fcs E 0 w cpn fp def_format 0 st of
          Inl x \<Rightarrow> Inl x
        | Inr st1 \<Rightarrow> fcs E (Suc d) w cpn fp post 0 (st1\<lparr>len := len st + len st1\<rparr>))"
    by (simp add: fcs_c)
  have 3: "format_checkpoint_string E (Suc d) fp n input w cpn flag
       = format_checkpoint_string E (Suc 0) fp n input w cpn flag"
    unfolding format_checkpoint_string_def
    using one_level_enough[of "Suc d" E w cpn fp _ 0] by blast
  have 4: "format_checkpoint_string E (Suc d) fp n input w cpn flag \<noteq> Inl Stack_exhausted"
    unfolding format_checkpoint_string_def
    using one_level_enough[of "Suc d" E w cpn fp _ 0] by blast
  show ?thesis
    using 1 2 3 4 def_format_no_c by blast
qed

theorem render_needs_one_level_witness:
  "format_checkpoint_string extern0 (Suc 2) Tty 0 (Some ''ab%cxy%c'') True 7 False
     = format_checkpoint_string extern0 (Suc 0) Tty 0 (Some ''ab%cxy%c'') True 7 False
   \<and> format_checkpoint_string extern0 (Suc 2) Tty 0 (Some ''ab%cxy%c'') True 7 False
       \<noteq> Inl Stack_exhausted"
  using render_needs_one_level
          [where E = extern0 and d = 2 and fp = Tty and n = 0 and w = True and cpn = 7
             and flag = False and input = "Some ''ab%cxy%c''" and ip = 0 and post = "[]"
             and st = "\<lparr>out = [], len = 0, cleanup = False, errors = []\<rparr>"]
  by blast

subsection \<open>The end of the template\<close>

text \<open>
  Claim C10 fails on the code. When the template ends with a percent sign, or with a
  percent sign and a bracketed argument, \<^verbatim>\<open>*++ip\<close> (or \<^verbatim>\<open>getarg\<close>) leaves the
  scan on the terminating NUL, the \<^verbatim>\<open>default\<close> branch takes the NUL as the
  directive letter, and the \<^verbatim>\<open>ip++\<close> of the loop then moves the scan past the NUL:
  the loop test reads outside the string.
\<close>

theorem scan_passes_terminator:
  "format_checkpoint_string E d fp n (Some ''%'') w cpn flag = Inl Read_past_terminator
   \<and> format_checkpoint_string E d fp n (Some ''ab%'') w cpn flag = Inl Read_past_terminator
   \<and> format_checkpoint_string E d fp n (Some ''%{x}'') w cpn flag = Inl Read_past_terminator"
proof -
  have 1: "fcs E d w cpn fp ''%'' 0 st = Inl Read_past_terminator" for st
    by (rule fcs_trailing_percent)
  have 2: "fcs E d w cpn fp ''ab%'' 0 st = Inl Read_past_terminator" for st
    using 1 by (simp add: fcs_literal)
  have 3: "fcs E d w cpn fp ''%{x}'' 0 st = Inl Read_past_terminator" for st
    using fcs_trailing_arg[of "''x''" E d w cpn fp st] by simp
  show ?thesis
    by (simp only: format_checkpoint_string_def option.case 1 2 3)
qed

subsection \<open>Shutdown\<close>

lemma flush_fold:
  "foldl (\<lambda>s p. flush_action E p s) st ps =
     st\<lparr>trace := trace st @ concat (map (\<lambda>p.
            if opcode p = cop_ttyout \<and> tty st \<and> tty_cleanup st
            then [Fwrite Tty (replicate (getwidth E Tty) CHR '' '' @ [CHR 0x0D])]
            else []) ps)\<rparr>"
proof (induction ps arbitrary: st)
  case Nil
  then show ?case by simp
next
  case (Cons p ps)
  show ?case
    by (simp add: Cons.IH) (simp add: flush_action_def split: checkpoint_opcode.splits)
qed

lemma cleanup_directive: "cleanup (directive E w cpn fp l arg st) = cleanup st"
  by (simp add: directive_def emit_def Let_def split: prod.splits)

lemma cleanup_stays:
  "fcs E d w cpn fp inp ip f = Inr f' \<Longrightarrow> cleanup f \<Longrightarrow> cleanup f'"
proof (induction E d w cpn fp inp ip f arbitrary: f' rule: fcs.induct)
  case (1 E d w cpn fp inp ip st)
  show ?case
  proof (cases "length inp \<le> ip")
    case True
    then show ?thesis using "1.prems" by (simp add: fcs.simps split: if_splits)
  next
    case False
    obtain x e where f: "fetch inp ip = (x, e)" by force
    have nl: "\<not> length inp < ip" and ne: "ip \<noteq> length inp"
      using False by auto
    note u = "1.prems"(1)[unfolded fcs.simps[of E d w cpn fp inp ip st]]
    show ?thesis
    proof (cases x)
      case (Literal c)
      have "fcs E d w cpn fp inp (Suc e) (put_literal c st) = Inr f'"
        using u nl ne f Literal by simp
      then show ?thesis
        using "1.IH"(1)[OF nl ne f[symmetric] Literal] "1.prems"(2)
        by (simp add: put_literal_def)
    next
      case Unclosed
      have "fcs E d w cpn fp inp (Suc e) (emit [CHR ''%'', CHR ''{''] st) = Inr f'"
        using u nl ne f Unclosed by simp
      then show ?thesis
        using "1.IH"(2)[OF nl ne f[symmetric] Unclosed] "1.prems"(2)
        by (simp add: emit_def)
    next
      case (Directive l arg)
      show ?thesis
      proof (cases "l = CHR ''c''")
        case True
        from u nl ne f Directive True obtain n st1 where
          d: "d = Suc n" and i: "fcs E n w cpn fp def_format 0 st = Inr st1"
          and o: "fcs E d w cpn fp inp (Suc e) (st1\<lparr>len := len st + len st1\<rparr>) = Inr f'"
          by (auto split: nat.splits sum.splits)
        have "cleanup st1"
          using "1.IH"(3)[OF nl ne f[symmetric] Directive True d i "1.prems"(2)] .
        then show ?thesis
          using "1.IH"(4)[OF nl ne f[symmetric] Directive True d i o] by simp
      next
        case False
        have "fcs E d w cpn fp inp (Suc e) (directive E w cpn fp l arg st) = Inr f'"
          using u nl ne f Directive False by simp
        then show ?thesis
          using "1.IH"(5)[OF nl ne f[symmetric] Directive False] "1.prems"(2)
          by (simp add: cleanup_directive)
      qed
    qed
  qed
qed

lemma reaches_state:
  "reaches inp k \<Longrightarrow> fcs E d w cpn fp inp 0 f = Inr f' \<Longrightarrow>
     \<exists>fk. fcs E d w cpn fp inp k fk = Inr f'"
proof (induction rule: reaches.induct)
  case (start inp)
  then show ?case by blast
next
  case (step inp ip)
  then obtain fk where fk: "fcs E d w cpn fp inp ip fk = Inr f'" by blast
  obtain x e where f: "fetch inp ip = (x, e)" by force
  show ?case
    using fk step.hyps(2) f
    by (subst (asm) fcs.simps)
       (auto split: item.splits if_splits nat.splits sum.splits)
qed

lemma fcs_reaches_cr:
  assumes "reaches inp k" "k < length inp" "inp ! k = CHR 0x0D"
    "fcs E d w cpn fp inp 0 f = Inr f'"
  shows "cleanup f'"
proof -
  from reaches_state[OF assms(1,4)] obtain fk where
    fk: "fcs E d w cpn fp inp k fk = Inr f'" by blast
  have "fetch inp k = (Literal (CHR 0x0D), k)"
    using assms(3) by (simp add: fetch_def)
  then have "fcs E d w cpn fp inp (Suc k) (put_literal (CHR 0x0D) fk) = Inr f'"
    using fk assms(2) by (subst (asm) fcs.simps) simp
  then show ?thesis
    using cleanup_stays[of E d w cpn fp inp "Suc k" "put_literal (CHR 0x0D) fk" f']
    by (simp add: put_literal_def)
qed

lemma def_format_renders:
  "fcs E d w cpn fp def_format 0 f =
     Inr (put_literal (CHR 0x0D)
           (directive E w cpn fp (CHR ''*'') None
             (directive E w cpn fp (CHR ''T'') (Some ''read,wrote'')
               (put_literal (CHR '' '') (put_literal (CHR '','') (put_literal (CHR ''s'')
                 (directive E w cpn fp (CHR ''d'') None
                   (put_literal (CHR '' '') (put_literal (CHR '':'')
                     (directive E w cpn fp (CHR ''t'') (Some ''%Y-%m-%d %H:%M:%S'')
                        f))))))))))"
proof -
  have a: "fcs E d w cpn fp def_format 0 g
             = fcs E d w cpn fp ('': %ds, %{read,wrote}T%*'' @ [CHR 0x0D]) 0
                 (directive E w cpn fp (CHR ''t'') (Some ''%Y-%m-%d %H:%M:%S'') g)" for g
    using fcs_directive_arg[of "''%Y-%m-%d %H:%M:%S''" "CHR ''t''" E d w cpn fp
            "'': %ds, %{read,wrote}T%*'' @ [CHR 0x0D]" g]
    by (simp add: def_format_def)
  have b: "fcs E d w cpn fp ('': %ds, %{read,wrote}T%*'' @ [CHR 0x0D]) 0 g
             = fcs E d w cpn fp (''%{read,wrote}T%*'' @ [CHR 0x0D]) 0
                 (put_literal (CHR '' '') (put_literal (CHR '','') (put_literal (CHR ''s'')
                   (directive E w cpn fp (CHR ''d'') None
                     (put_literal (CHR '' '') (put_literal (CHR '':'') g))))))" for g
    by (simp add: fcs_literal fcs_directive)
  have c: "fcs E d w cpn fp (''%{read,wrote}T%*'' @ [CHR 0x0D]) 0 g
             = fcs E d w cpn fp (''%*'' @ [CHR 0x0D]) 0
                 (directive E w cpn fp (CHR ''T'') (Some ''read,wrote'') g)" for g
    using fcs_directive_arg[of "''read,wrote''" "CHR ''T''" E d w cpn fp
            "''%*'' @ [CHR 0x0D]" g]
    by simp
  have e: "fcs E d w cpn fp (''%*'' @ [CHR 0x0D]) 0 g
             = Inr (put_literal (CHR 0x0D) (directive E w cpn fp (CHR ''*'') None g))" for g
    by (simp add: fcs_directive fcs_literal fcs_nil)
  show ?thesis unfolding a b c e ..
qed

lemma def_format_sets_flag:
  "fcs E d w cpn fp def_format 0 f = Inr f' \<Longrightarrow> cleanup f'"
  by (auto simp: def_format_renders put_literal_def)

lemma fcs_reaches_c:
  assumes "reaches inp k" "k < length inp" "fst (fetch inp k) = Directive (CHR ''c'') arg"
    "fcs E d w cpn fp inp 0 f = Inr f'"
  shows "cleanup f'"
proof -
  from reaches_state[OF assms(1,4)] obtain fk where
    fk: "fcs E d w cpn fp inp k fk = Inr f'" by blast
  obtain e where f: "fetch inp k = (Directive (CHR ''c'') arg, e)"
    using assms(3) by (cases "fetch inp k") auto
  from fk assms(2) f obtain n st1 where
    i: "fcs E n w cpn fp def_format 0 fk = Inr st1"
    and o: "fcs E d w cpn fp inp (Suc e) (st1\<lparr>len := len fk + len st1\<rparr>) = Inr f'"
    by (subst (asm) fcs.simps) (auto split: nat.splits sum.splits)
  have "cleanup st1" using def_format_sets_flag[OF i] .
  then show ?thesis
    using cleanup_stays[OF o] by simp
qed

lemma run_action_ttyout_flag:
  assumes "opcode p = cop_ttyout" "v p = V_command tpl"
    "\<And>cpn f f'. fcs E d w cpn Tty tpl 0 f = Inr f' \<Longrightarrow> cleanup f'"
    "run_action E d w p st = Inr st'" "tty st'"
  shows "tty_cleanup st'"
  using assms(1,2,4,5) assms(3)[of "checkpoint st"]
  by (auto simp: run_action_def open_tty_def rendered_def Let_def v_command_def
        format_checkpoint_string_def split: if_splits sum.splits)

lemma run_action_ttyout_opens:
  "opcode p = cop_ttyout \<Longrightarrow> run_action E d w p st = Inr st' \<Longrightarrow>
     tty st' = (tty st \<or> tty_opens E)"
  by (auto simp: run_action_def open_tty_def rendered_def Let_def split: if_splits sum.splits)

lemma run_action_flags:
  assumes "run_action E d w p st = Inr st'"
  shows "(tty_cleanup st \<longrightarrow> tty_cleanup st') \<and> (tty st \<longrightarrow> tty st')
         \<and> (tty st' \<longrightarrow> tty st \<or> tty_opens E)"
  using assms cleanup_stays[of E d w "checkpoint st" _ _ 0
          "\<lparr>out = [], len = _, cleanup = tty_cleanup st, errors = []\<rparr>"]
  by (cases "opcode p")
     (auto simp: run_action_def open_tty_def rendered_def Let_def
        format_checkpoint_string_def split: if_splits sum.splits)

lemma run_from_flags:
  "run_from E d w ps st = Inr st' \<Longrightarrow>
     (tty_cleanup st \<longrightarrow> tty_cleanup st') \<and> (tty st \<longrightarrow> tty st')
     \<and> (tty st' \<longrightarrow> tty st \<or> tty_opens E)"
proof (induction ps arbitrary: st)
  case Nil
  then show ?case by simp
next
  case (Cons p ps)
  from Cons.prems obtain st1 where
    1: "run_action E d w p st = Inr st1" and 2: "run_from E d w ps st1 = Inr st'"
    by (auto split: sum.splits)
  show ?case using run_action_flags[OF 1] Cons.IH[OF 2] by blast
qed

lemma run_from_ttyout_flag:
  assumes "\<And>cpn f f'. fcs E d w cpn Tty tpl 0 f = Inr f' \<Longrightarrow> cleanup f'"
  shows "p \<in> set ps \<Longrightarrow> opcode p = cop_ttyout \<Longrightarrow> v p = V_command tpl
   \<Longrightarrow> run_from E d w ps st = Inr st' \<Longrightarrow> tty st' \<Longrightarrow> tty_cleanup st'"
proof (induction ps arbitrary: st)
  case Nil
  then show ?case by simp
next
  case (Cons q qs)
  from Cons.prems obtain st1 where
    1: "run_action E d w q st = Inr st1" and 2: "run_from E d w qs st1 = Inr st'"
    by (auto split: sum.splits)
  show ?case
  proof (cases "p = q")
    case True
    have "tty st1"
      using run_action_ttyout_opens[OF _ 1] run_from_flags[OF 2] True Cons.prems by auto
    then have "tty_cleanup st1"
      using run_action_ttyout_flag[OF _ _ assms 1] True Cons.prems by auto
    then show ?thesis using run_from_flags[OF 2] by blast
  next
    case False
    then have "p \<in> set qs" using Cons.prems by auto
    then show ?thesis using Cons.IH[OF _ _ _ 2] Cons.prems by auto
  qed
qed

lemma checkpoint_run_flag:
  "checkpoint_run E d w st = Inr st' \<Longrightarrow> tty_cleanup st \<Longrightarrow> tty_cleanup st'"
proof -
  assume a: "checkpoint_run E d w st = Inr st'" and b: "tty_cleanup st"
  show ?thesis
  proof (cases "checkpoint_option st \<noteq> 0
               \<and> c_rem (wrap_intmax (checkpoint st + 1)) (checkpoint_option st) = 0")
    case True
    then have "run_from E d w (checkpoint_action st)
                 (st\<lparr>checkpoint := wrap_intmax (checkpoint st + 1)\<rparr>) = Inr st'"
      using a by (simp add: checkpoint_run_def run_checkpoint_actions_def Let_def)
    from run_from_flags[OF this] show ?thesis using b by simp
  next
    case False
    then show ?thesis using a b
      by (auto simp: checkpoint_run_def Let_def split: if_splits)
  qed
qed

lemma run_ticks_flag:
  "run_ticks E d ws st = Inr st' \<Longrightarrow> tty_cleanup st \<Longrightarrow> tty_cleanup st'"
proof (induction ws arbitrary: st)
  case Nil
  then show ?case by simp
next
  case (Cons w ws)
  from Cons.prems obtain st1 where
    1: "checkpoint_run E d w st = Inr st1" and 2: "run_ticks E d ws st1 = Inr st'"
    by (auto split: sum.splits)
  show ?case using checkpoint_run_flag[OF 1] Cons.IH[OF 2] Cons.prems by blast
qed

text \<open>
  Claim C8. With a nonzero interval, \<^verbatim>\<open>checkpoint_finish\<close> goes through the action
  list and, for each \<^verbatim>\<open>ttyout\<close> action, when the terminal is open and
  \<^verbatim>\<open>tty_cleanup\<close> is set, writes as many spaces as \<^verbatim>\<open>getwidth\<close> gives for the
  terminal and one carriage return; then it closes the terminal when it is open.
  Nothing else changes. The flag is set by a carriage return of the template, which is
  written and puts the column count back to zero, and no rendering clears it. So when
  the action list has run with a \<^verbatim>\<open>ttyout\<close> action in it whose template has,
  where the scan takes an item, a carriage return or a \<^verbatim>\<open>%c\<close> (the default
  template ends with a carriage return), and the terminal is open,
  \<^verbatim>\<open>tty_cleanup\<close> is set, and it stays set through every later tick until
  \<^verbatim>\<open>checkpoint_finish\<close> reads it.
\<close>

theorem finish_blanks_dirty_lines:
  "(checkpoint_option st \<noteq> 0 \<longrightarrow>
      checkpoint_finish E st =
        st\<lparr>trace := trace st
              @ concat (map (\<lambda>p.
                  if opcode p = cop_ttyout \<and> tty st \<and> tty_cleanup st
                  then [Fwrite Tty (replicate (getwidth E Tty) CHR '' '' @ [CHR 0x0D])]
                  else []) (checkpoint_action st))
              @ (if tty st then [Fclose_tty] else [])\<rparr>)
   \<and> fcs E d w cpn fp (CHR 0x0D # post) 0 f
        = fcs E d w cpn fp post 0 (f\<lparr>out := out f @ [CHR 0x0D], len := 0, cleanup := True\<rparr>)
   \<and> (fcs E d w cpn fp inp ip f = Inr f' \<and> cleanup f \<longrightarrow> cleanup f')
   \<and> (p \<in> set (checkpoint_action st) \<and> opcode p = cop_ttyout \<and> v p = V_command tpl
        \<and> reaches tpl k \<and> k < length tpl
        \<and> (tpl ! k = CHR 0x0D \<or> (\<exists>arg. fst (fetch tpl k) = Directive (CHR ''c'') arg))
        \<and> run_checkpoint_actions E d w st = Inr st' \<and> tty st' \<longrightarrow> tty_cleanup st')
   \<and> (run_ticks E d ws st = Inr st'' \<and> tty_cleanup st \<longrightarrow> tty_cleanup st'')"
proof -
  have 1: "checkpoint_option st \<noteq> 0 \<longrightarrow>
      checkpoint_finish E st =
        st\<lparr>trace := trace st
              @ concat (map (\<lambda>p.
                  if opcode p = cop_ttyout \<and> tty st \<and> tty_cleanup st
                  then [Fwrite Tty (replicate (getwidth E Tty) CHR '' '' @ [CHR 0x0D])]
                  else []) (checkpoint_action st))
              @ (if tty st then [Fclose_tty] else [])\<rparr>"
    by (simp add: checkpoint_finish_def checkpoint_flush_actions_def flush_fold Let_def)
  have 2: "fcs E d w cpn fp (CHR 0x0D # post) 0 f
        = fcs E d w cpn fp post 0 (f\<lparr>out := out f @ [CHR 0x0D], len := 0, cleanup := True\<rparr>)"
    by (simp add: fcs_literal put_literal_def)
  have 3: "fcs E d w cpn fp inp ip f = Inr f' \<and> cleanup f \<longrightarrow> cleanup f'"
    using cleanup_stays[of E d w cpn fp inp ip f f'] by blast
  have 4: "p \<in> set (checkpoint_action st) \<and> opcode p = cop_ttyout \<and> v p = V_command tpl
        \<and> reaches tpl k \<and> k < length tpl
        \<and> (tpl ! k = CHR 0x0D \<or> (\<exists>arg. fst (fetch tpl k) = Directive (CHR ''c'') arg))
        \<and> run_checkpoint_actions E d w st = Inr st' \<and> tty st' \<longrightarrow> tty_cleanup st'"
  proof
    assume h: "p \<in> set (checkpoint_action st) \<and> opcode p = cop_ttyout \<and> v p = V_command tpl
        \<and> reaches tpl k \<and> k < length tpl
        \<and> (tpl ! k = CHR 0x0D \<or> (\<exists>arg. fst (fetch tpl k) = Directive (CHR ''c'') arg))
        \<and> run_checkpoint_actions E d w st = Inr st' \<and> tty st'"
    have fl: "cleanup g'" if "fcs E d w n Tty tpl 0 g = Inr g'" for n g g'
      using h that fcs_reaches_cr[of tpl k E d w n Tty g g']
        fcs_reaches_c[of tpl k _ E d w n Tty g g']
      by blast
    show "tty_cleanup st'"
      using h run_from_ttyout_flag[of E d w tpl p "checkpoint_action st" st st', OF fl]
      by (simp add: run_checkpoint_actions_def)
  qed
  have 5: "run_ticks E d ws st = Inr st'' \<and> tty_cleanup st \<longrightarrow> tty_cleanup st''"
    using run_ticks_flag[of E d ws st st''] by blast
  show ?thesis using 1 2 3 4 5 by blast
qed

theorem finish_blanks_dirty_lines_witness:
  "reaches [CHR ''%'', CHR ''u'', CHR 0x0D] 2
   \<and> [CHR ''%'', CHR ''u'', CHR 0x0D] ! 2 = CHR 0x0D
   \<and> run_checkpoint_actions extern0 1 True
       \<lparr>checkpoint = 1,
        checkpoint_action =
          [\<lparr>opcode = cop_ttyout, v = V_command [CHR ''%'', CHR ''u'', CHR 0x0D]\<rparr>],
        checkpoint_state = CHKP_RUN, sigs = {}, checkpoint_option = 1,
        tty = False, tty_cleanup = False, sigmask = {},
        trace = [Sigprocmask_block {}]\<rparr>
     = Inr \<lparr>checkpoint = 1,
          checkpoint_action =
            [\<lparr>opcode = cop_ttyout, v = V_command [CHR ''%'', CHR ''u'', CHR 0x0D]\<rparr>],
          checkpoint_state = CHKP_RUN, sigs = {}, checkpoint_option = 1,
          tty = True, tty_cleanup = True, sigmask = {},
          trace = [Sigprocmask_block {}, Fopen_tty True, Fwrite Tty [CHR ''1'', CHR 0x0D]]\<rparr>
   \<and> tty_cleanup
       \<lparr>checkpoint = 1,
        checkpoint_action =
          [\<lparr>opcode = cop_ttyout, v = V_command [CHR ''%'', CHR ''u'', CHR 0x0D]\<rparr>],
        checkpoint_state = CHKP_RUN, sigs = {}, checkpoint_option = 1,
        tty = True, tty_cleanup = True, sigmask = {},
        trace = [Sigprocmask_block {}, Fopen_tty True, Fwrite Tty [CHR ''1'', CHR 0x0D]]\<rparr>
   \<and> session extern0 1 1 {} [''ttyout=%u'' @ [CHR 0x0D]] [True]
     = Inr \<lparr>checkpoint = 1,
          checkpoint_action =
            [\<lparr>opcode = cop_ttyout, v = V_command [CHR ''%'', CHR ''u'', CHR 0x0D]\<rparr>],
          checkpoint_state = CHKP_RUN, sigs = {}, checkpoint_option = 1,
          tty = True, tty_cleanup = True, sigmask = {},
          trace = [Sigprocmask_block {}, Fopen_tty True, Fwrite Tty [CHR ''1'', CHR 0x0D]]\<rparr>
   \<and> checkpoint_finish extern0
       \<lparr>checkpoint = 1,
        checkpoint_action =
          [\<lparr>opcode = cop_ttyout, v = V_command [CHR ''%'', CHR ''u'', CHR 0x0D]\<rparr>],
        checkpoint_state = CHKP_RUN, sigs = {}, checkpoint_option = 1,
        tty = True, tty_cleanup = True, sigmask = {},
        trace = [Sigprocmask_block {}, Fopen_tty True, Fwrite Tty [CHR ''1'', CHR 0x0D]]\<rparr>
     = \<lparr>checkpoint = 1,
      checkpoint_action =
        [\<lparr>opcode = cop_ttyout, v = V_command [CHR ''%'', CHR ''u'', CHR 0x0D]\<rparr>],
      checkpoint_state = CHKP_RUN, sigs = {}, checkpoint_option = 1,
      tty = True, tty_cleanup = True, sigmask = {},
      trace = [Sigprocmask_block {}, Fopen_tty True, Fwrite Tty [CHR ''1'', CHR 0x0D],
                 Fwrite Tty (replicate 120 CHR '' '' @ [CHR 0x0D]), Fclose_tty]\<rparr>"
proof -
  have g: "getwidth extern0 Tty = 120"
    by (simp add: getwidth_def extern0_def)
  have k: "reaches [CHR ''%'', CHR ''u'', CHR 0x0D] 2"
    using reaches.step[OF reaches.start, of "[CHR ''%'', CHR ''u'', CHR 0x0D]"]
    by (simp add: fetch_def char_at_def numeral_2_eq_2)
  have c: "compile_all extern0 [''ttyout=%u'' @ [CHR 0x0D]] (initial 1 {})
     = Inr ((initial 1 {})\<lparr>checkpoint_state := CHKP_COMPILE,
             checkpoint_action :=
               [\<lparr>opcode = cop_ttyout, v = V_command [CHR ''%'', CHR ''u'', CHR 0x0D]\<rparr>]\<rparr>)"
    by (simp add: checkpoint_compile_action_def initial_def extern0_def alloc_action_def
          set_tail_v_def copy_string_unquote_def strip_quote_pair_def)
  have w1: "wrap_intmax 1 = 1"
    by (simp add: wrap_intmax_def)
  have r: "format_checkpoint_string extern0 (Suc 0) Tty 0
             (Some [CHR ''%'', CHR ''u'', CHR 0x0D]) True 1 False
             = Inr \<lparr>out = [CHR ''1'', CHR 0x0D], len = 0, cleanup = True, errors = []\<rparr>"
    by (simp add: format_checkpoint_string_def fcs_directive fcs_literal fcs_nil
          put_literal_def directive_def emit_def jd_def)
  have o: "tty_opens extern0" "unblockable extern0 = {9, 19}"
    by (simp_all add: extern0_def)
  have a: "run_checkpoint_actions extern0 (Suc 0) True
       \<lparr>checkpoint = 1,
        checkpoint_action =
          [\<lparr>opcode = cop_ttyout, v = V_command [CHR ''%'', CHR ''u'', CHR 0x0D]\<rparr>],
        checkpoint_state = CHKP_RUN, sigs = {}, checkpoint_option = 1,
        tty = False, tty_cleanup = False, sigmask = {},
        trace = [Sigprocmask_block {}]\<rparr>
     = Inr \<lparr>checkpoint = 1,
          checkpoint_action =
            [\<lparr>opcode = cop_ttyout, v = V_command [CHR ''%'', CHR ''u'', CHR 0x0D]\<rparr>],
          checkpoint_state = CHKP_RUN, sigs = {}, checkpoint_option = 1,
          tty = True, tty_cleanup = True, sigmask = {},
          trace = [Sigprocmask_block {}, Fopen_tty True, Fwrite Tty [CHR ''1'', CHR 0x0D]]\<rparr>"
    by (simp add: o r run_checkpoint_actions_def run_action_def open_tty_def rendered_def
          v_command_def Let_def)
  have s: "session extern0 1 1 {} [''ttyout=%u'' @ [CHR 0x0D]] [True]
     = Inr \<lparr>checkpoint = 1,
          checkpoint_action =
            [\<lparr>opcode = cop_ttyout, v = V_command [CHR ''%'', CHR ''u'', CHR 0x0D]\<rparr>],
          checkpoint_state = CHKP_RUN, sigs = {}, checkpoint_option = 1,
          tty = True, tty_cleanup = True, sigmask = {},
          trace = [Sigprocmask_block {}, Fopen_tty True, Fwrite Tty [CHR ''1'', CHR 0x0D]]\<rparr>"
    unfolding session_def c
    by (simp add: finish_compile_cases initial_def checkpoint_run_def w1 o a c_rem_def)
  have f: "tty_cleanup
       \<lparr>checkpoint = 1,
        checkpoint_action =
          [\<lparr>opcode = cop_ttyout, v = V_command [CHR ''%'', CHR ''u'', CHR 0x0D]\<rparr>],
        checkpoint_state = CHKP_RUN, sigs = {}, checkpoint_option = 1,
        tty = True, tty_cleanup = True, sigmask = {},
        trace = [Sigprocmask_block {}, Fopen_tty True, Fwrite Tty [CHR ''1'', CHR 0x0D]]\<rparr>"
    using k a finish_blanks_dirty_lines
      [where E = extern0 and d = "Suc 0" and w = True and cpn = 1 and fp = Tty and post = "[]"
         and p = "\<lparr>opcode = cop_ttyout, v = V_command [CHR ''%'', CHR ''u'', CHR 0x0D]\<rparr>"
         and tpl = "[CHR ''%'', CHR ''u'', CHR 0x0D]" and k = 2
         and st = "\<lparr>checkpoint = 1,
        checkpoint_action =
          [\<lparr>opcode = cop_ttyout, v = V_command [CHR ''%'', CHR ''u'', CHR 0x0D]\<rparr>],
        checkpoint_state = CHKP_RUN, sigs = {}, checkpoint_option = 1,
        tty = False, tty_cleanup = False, sigmask = {},
        trace = [Sigprocmask_block {}]\<rparr>"
         and st' = "\<lparr>checkpoint = 1,
        checkpoint_action =
          [\<lparr>opcode = cop_ttyout, v = V_command [CHR ''%'', CHR ''u'', CHR 0x0D]\<rparr>],
        checkpoint_state = CHKP_RUN, sigs = {}, checkpoint_option = 1,
        tty = True, tty_cleanup = True, sigmask = {},
        trace = [Sigprocmask_block {}, Fopen_tty True, Fwrite Tty [CHR ''1'', CHR 0x0D]]\<rparr>"]
    by simp
  show ?thesis
    using k a s f finish_blanks_dirty_lines
      [where E = extern0 and d = 1 and w = True and cpn = 1 and fp = Tty and post = "[]"
         and st = "\<lparr>checkpoint = 1,
        checkpoint_action =
          [\<lparr>opcode = cop_ttyout, v = V_command [CHR ''%'', CHR ''u'', CHR 0x0D]\<rparr>],
        checkpoint_state = CHKP_RUN, sigs = {}, checkpoint_option = 1,
        tty = True, tty_cleanup = True, sigmask = {},
        trace = [Sigprocmask_block {}, Fopen_tty True, Fwrite Tty [CHR ''1'', CHR 0x0D]]\<rparr>"]
    by (simp add: g)
qed

subsection \<open>Blocking the signals\<close>

lemma only_waits_on_Nil: "only_waits_on S []"
  by (simp add: only_waits_on_def)

lemma only_waits_on_Cons:
  "only_waits_on S (e # es) =
     ((case e of Sigprocmask_block T \<Rightarrow> False | Sigwait T \<Rightarrow> T = S | _ \<Rightarrow> True)
      \<and> only_waits_on S es)"
  by (cases e) (auto simp: only_waits_on_def)

lemma only_waits_on_append:
  "only_waits_on S (a @ b) = (only_waits_on S a \<and> only_waits_on S b)"
  by (induction a) (auto simp: only_waits_on_Nil only_waits_on_Cons)

lemma only_waits_on_paxerror: "only_waits_on S (map Paxerror xs)"
  by (induction xs) (auto simp: only_waits_on_Nil only_waits_on_Cons)

lemma only_waits_on_blocked:
  "only_waits_on S es \<Longrightarrow> S - U \<subseteq> m \<Longrightarrow> waits_blocked U m es"
proof (induction es)
  case Nil
  then show ?case by simp
next
  case (Cons e es)
  then show ?case by (cases e) (auto simp: only_waits_on_Cons)
qed

lemma run_action_events:
  assumes "run_action E d w p st = Inr st'"
  shows "sigs st' = sigs st \<and> checkpoint_action st' = checkpoint_action st
         \<and> checkpoint_option st' = checkpoint_option st \<and> sigmask st' = sigmask st
         \<and> checkpoint st' = checkpoint st
         \<and> (\<exists>es. trace st' = trace st @ es \<and> only_waits_on (sigs st) es)"
  using assms
  by (cases "opcode p")
     (auto simp: run_action_def open_tty_def rendered_def Let_def only_waits_on_Nil
        only_waits_on_Cons only_waits_on_append only_waits_on_paxerror
        split: if_splits sum.splits)

lemma run_from_events:
  "run_from E d w ps st = Inr st' \<Longrightarrow>
     sigs st' = sigs st \<and> checkpoint_action st' = checkpoint_action st
     \<and> checkpoint_option st' = checkpoint_option st \<and> sigmask st' = sigmask st
     \<and> checkpoint st' = checkpoint st
     \<and> (\<exists>es. trace st' = trace st @ es \<and> only_waits_on (sigs st) es)"
proof (induction ps arbitrary: st)
  case Nil
  then show ?case by (simp add: only_waits_on_Nil)
next
  case (Cons p ps)
  from Cons.prems obtain st1 where
    1: "run_action E d w p st = Inr st1" and 2: "run_from E d w ps st1 = Inr st'"
    by (auto split: sum.splits)
  from run_action_events[OF 1] obtain es1 where
    a: "sigs st1 = sigs st" "checkpoint_action st1 = checkpoint_action st"
       "checkpoint_option st1 = checkpoint_option st" "sigmask st1 = sigmask st"
       "checkpoint st1 = checkpoint st"
       "trace st1 = trace st @ es1" "only_waits_on (sigs st) es1"
    by blast
  from Cons.IH[OF 2] obtain es2 where
    b: "sigs st' = sigs st1" "checkpoint_action st' = checkpoint_action st1"
       "checkpoint_option st' = checkpoint_option st1" "sigmask st' = sigmask st1"
       "checkpoint st' = checkpoint st1"
       "trace st' = trace st1 @ es2" "only_waits_on (sigs st1) es2"
    by blast
  have "trace st' = trace st @ (es1 @ es2) \<and> only_waits_on (sigs st) (es1 @ es2)"
    using a b by (simp add: only_waits_on_append)
  then show ?case using a b by metis
qed

lemma checkpoint_run_events:
  assumes "checkpoint_run E d w st = Inr st'"
  shows "sigs st' = sigs st \<and> checkpoint_action st' = checkpoint_action st
         \<and> checkpoint_option st' = checkpoint_option st \<and> sigmask st' = sigmask st
         \<and> (\<exists>es. trace st' = trace st @ es \<and> only_waits_on (sigs st) es)
         \<and> (checkpoint_option st = 0 \<longrightarrow> st' = st)"
proof (cases "checkpoint_option st \<noteq> 0
               \<and> c_rem (wrap_intmax (checkpoint st + 1)) (checkpoint_option st) = 0")
  case True
  then have "run_from E d w (checkpoint_action st)
               (st\<lparr>checkpoint := wrap_intmax (checkpoint st + 1)\<rparr>) = Inr st'"
    using assms by (simp add: checkpoint_run_def run_checkpoint_actions_def Let_def)
  from run_from_events[OF this] show ?thesis using True by simp
next
  case False
  then have "st' = st \<or> st' = st\<lparr>checkpoint := wrap_intmax (checkpoint st + 1)\<rparr>"
    using assms by (auto simp: checkpoint_run_def Let_def split: if_splits)
  then show ?thesis using False assms
    by (auto simp: only_waits_on_Nil checkpoint_run_def)
qed

lemma run_ticks_events:
  "run_ticks E d ws st = Inr st' \<Longrightarrow>
     sigs st' = sigs st \<and> sigmask st' = sigmask st
     \<and> (\<exists>es. trace st' = trace st @ es \<and> only_waits_on (sigs st) es)
     \<and> (checkpoint_option st = 0 \<longrightarrow> st' = st)"
proof (induction ws arbitrary: st)
  case Nil
  then show ?case by (simp add: only_waits_on_Nil)
next
  case (Cons w ws)
  from Cons.prems obtain st1 where
    1: "checkpoint_run E d w st = Inr st1" and 2: "run_ticks E d ws st1 = Inr st'"
    by (auto split: sum.splits)
  from checkpoint_run_events[OF 1] obtain es1 where
    a: "sigs st1 = sigs st" "checkpoint_option st1 = checkpoint_option st"
       "sigmask st1 = sigmask st"
       "trace st1 = trace st @ es1" "only_waits_on (sigs st) es1"
       "checkpoint_option st = 0 \<longrightarrow> st1 = st"
    by blast
  from Cons.IH[OF 2] obtain es2 where
    b: "sigs st' = sigs st1" "sigmask st' = sigmask st1"
       "trace st' = trace st1 @ es2" "only_waits_on (sigs st1) es2"
       "checkpoint_option st1 = 0 \<longrightarrow> st' = st1"
    by blast
  have "trace st' = trace st @ (es1 @ es2) \<and> only_waits_on (sigs st) (es1 @ es2)"
    using a b by (simp add: only_waits_on_append)
  then show ?case using a b by metis
qed


lemma wait_prefix: "take 5 s = ''wait='' \<Longrightarrow> \<exists>r. s = ''wait='' @ r"
  by (metis append_take_drop_id)

lemma compile_alone_sigs:
  assumes "checkpoint_compile_action E s (initial 0 {}) = Inr t"
  shows "sigs t = (if take 5 s = ''wait='' \<and> sigaddset_ok E (decode_signal E (drop 5 s))
                   then {decode_signal E (drop 5 s)} else {})"
proof (cases "take 5 s = ''wait=''")
  case True
  then obtain r where r: "s = ''wait='' @ r" using wait_prefix by blast
  show ?thesis
    using assms unfolding r
    by (auto simp: checkpoint_compile_action_def initial_def Let_def set_tail_v_def
          alloc_action_def)
next
  case False
  then show ?thesis
    using assms unfolding checkpoint_compile_action_def Let_def initial_def
    by (auto simp: set_tail_v_def alloc_action_def split: if_split_asm prod.split_asm)
qed

lemma compile_action_sigs:
  assumes "checkpoint_compile_action E s st = Inr st'"
  shows "sigs st' = (if checkpoint_state st = CHKP_INIT then {} else sigs st)
                    \<union> (if take 5 s = ''wait='' \<and> sigaddset_ok E (decode_signal E (drop 5 s))
                       then {decode_signal E (drop 5 s)} else {})"
proof -
  from assms obtain t where t: "checkpoint_compile_action E s (initial 0 {}) = Inr t"
    by (subst (asm) compile_action_shape) (auto split: sum.splits)
  have "st' = st\<lparr>checkpoint_action := checkpoint_action st @ checkpoint_action t,
                  sigs := (if checkpoint_state st = CHKP_INIT then {} else sigs st) \<union> sigs t,
                  checkpoint_state := (if checkpoint_state st = CHKP_INIT then CHKP_COMPILE
                                     else checkpoint_state st)\<rparr>"
    using assms t by (subst (asm) compile_action_shape) simp
  then show ?thesis using compile_alone_sigs[OF t] by simp
qed

lemma compile_all_sigs:
  "compile_all E specs st = Inr st' \<Longrightarrow>
     sigs st' = (if specs \<noteq> [] \<and> checkpoint_state st = CHKP_INIT then {} else sigs st)
                \<union> set (filter (sigaddset_ok E)
                         (map (\<lambda>s. decode_signal E (drop 5 s))
                            (filter (\<lambda>s. take 5 s = ''wait='') specs)))"
proof (induction specs arbitrary: st)
  case Nil
  then show ?case by simp
next
  case (Cons s ss)
  from Cons.prems obtain st1 where
    1: "checkpoint_compile_action E s st = Inr st1" and 2: "compile_all E ss st1 = Inr st'"
    by (auto split: sum.splits)
  have ni: "checkpoint_state st1 \<noteq> CHKP_INIT"
    using compile_action_appends[OF 1] by (auto split: if_splits)
  show ?case
    using compile_action_sigs[OF 1] Cons.IH[OF 2] ni by auto
qed

text \<open>
  Claim C2, as the code has it. In a session that the host runs in the order compile,
  finish, run, the signal set is given to \<^verbatim>\<open>sigprocmask\<close> at most once: once when
  a string was compiled or the interval is nonzero, and not at all when no string was
  compiled and the interval is zero (then the list is empty and nothing ever runs). The
  set is the one collected from the \<^verbatim>\<open>wait=\<close> strings, as far as
  \<^verbatim>\<open>sigaddset\<close> accepts their numbers. Every \<^verbatim>\<open>sigwait\<close> of the session comes
  after that call, waits on the set given to it, and finds in the mask of the process
  every signal of the set that the system lets a process block.
\<close>

theorem signals_blocked_before_wait:
  assumes "session E d opt blocked specs ticks = Inr st"
  shows "blockings (trace st) = (if specs = [] \<and> opt = 0 then [] else [sigs st])
         \<and> sigs st = set (filter (sigaddset_ok E)
                            (map (\<lambda>s. decode_signal E (drop 5 s))
                               (filter (\<lambda>s. take 5 s = ''wait='') specs)))
         \<and> block_then_wait None (trace st)
         \<and> waits_blocked (unblockable E) blocked (trace st)
         \<and> sigmask st = (if specs = [] \<and> opt = 0 then blocked
                          else blocked \<union> (sigs st - unblockable E))"
proof -
  from assms obtain st1 st2 where
    1: "compile_all E specs (initial opt blocked) = Inr st1"
    and 2: "checkpoint_finish_compile E st1 = Inr st2"
    and 3: "run_ticks E d ticks st2 = Inr st"
    by (auto simp: session_def split: sum.splits)
  note c = compile_all_appends[OF 1] compile_all_sigs[OF 1]
  from run_ticks_events[OF 3] obtain es where
    r: "sigs st = sigs st2" "sigmask st = sigmask st2" "trace st = trace st2 @ es"
       "only_waits_on (sigs st2) es" "checkpoint_option st2 = 0 \<longrightarrow> st = st2"
    by blast
  show ?thesis
  proof (cases "specs = [] \<and> opt = 0")
    case True
    then have "st1 = initial opt blocked" using 1 by simp
    then have "st2 = initial 0 blocked"
      using 2 True by (simp add: finish_compile_cases initial_def)
    then have "st = initial 0 blocked" using r by (simp add: initial_def)
    then show ?thesis using True by (simp add: initial_def)
  next
    case False
    have s1: "sigs st1 = set (filter (sigaddset_ok E)
                            (map (\<lambda>s. decode_signal E (drop 5 s))
                               (filter (\<lambda>s. take 5 s = ''wait='') specs)))"
      using c by (simp add: initial_def)
    have st2: "trace st2 = [Sigprocmask_block (sigs st2)] \<and> sigs st2 = sigs st1
               \<and> sigmask st2 = blocked \<union> (sigs st2 - unblockable E)"
      using 2 c False s1
      by (cases "specs = []")
         (auto simp: finish_compile_cases initial_def split: if_splits)
    have wb: "waits_blocked (unblockable E) (blocked \<union> (sigs st2 - unblockable E)) es"
      using only_waits_on_blocked[OF r(4)] by simp
    show ?thesis
      using False r st2 s1 wb by (simp add: only_waits_on_def)
  qed
qed


theorem signals_blocked_before_wait_witness:
  "session extern0 1 2 {} [''wait=USR1'', ''wait=9'', ''dot''] [True, True]
     = Inr \<lparr>checkpoint = 2,
            checkpoint_action = [\<lparr>opcode = cop_wait, v = V_signal 10\<rparr>,
                                 \<lparr>opcode = cop_wait, v = V_signal 9\<rparr>,
                                 \<lparr>opcode = cop_dot, v = V_zero\<rparr>],
            checkpoint_state = CHKP_RUN, sigs = {9, 10}, checkpoint_option = 2,
            tty = False, tty_cleanup = False, sigmask = {10},
            trace = [Sigprocmask_block {9, 10}, Sigwait {9, 10}, Sigwait {9, 10},
                     Fwrite Stdlis ''.'']\<rparr>
   \<and> blockings [Sigprocmask_block {9, 10}, Sigwait {9, 10}, Sigwait {9, 10},
                 Fwrite Stdlis ''.''] = [{9, 10}]
   \<and> block_then_wait None [Sigprocmask_block {9, 10}, Sigwait {9, 10}, Sigwait {9, 10},
                            Fwrite Stdlis ''.'']
   \<and> waits_blocked {9, 19} {} [Sigprocmask_block {9, 10}, Sigwait {9, 10}, Sigwait {9, 10},
                                Fwrite Stdlis ''.'']"
proof -
  have c: "compile_all extern0 [''wait=USR1'', ''wait=9'', ''dot''] (initial 2 {})
     = Inr ((initial 2 {})\<lparr>checkpoint_state := CHKP_COMPILE, sigs := {9, 10},
             checkpoint_action := [\<lparr>opcode = cop_wait, v = V_signal 10\<rparr>,
                                   \<lparr>opcode = cop_wait, v = V_signal 9\<rparr>,
                                   \<lparr>opcode = cop_dot, v = V_zero\<rparr>]\<rparr>)"
    by (simp add: checkpoint_compile_action_def initial_def extern0_def
          decode_signal_spec_def decimal_value_def digit_value_def alloc_action_def
          set_tail_v_def)
  have w1: "wrap_intmax 1 = 1" and w2: "wrap_intmax 2 = 2"
    by (simp_all add: wrap_intmax_def)
  have u: "unblockable extern0 = {9, 19}"
    by (simp add: extern0_def)
  have m: "{9, 10} - {9, 19 :: int} = {10}"
    by auto
  have s: "session extern0 1 2 {} [''wait=USR1'', ''wait=9'', ''dot''] [True, True]
     = Inr \<lparr>checkpoint = 2,
            checkpoint_action = [\<lparr>opcode = cop_wait, v = V_signal 10\<rparr>,
                                 \<lparr>opcode = cop_wait, v = V_signal 9\<rparr>,
                                 \<lparr>opcode = cop_dot, v = V_zero\<rparr>],
            checkpoint_state = CHKP_RUN, sigs = {9, 10}, checkpoint_option = 2,
            tty = False, tty_cleanup = False, sigmask = {10},
            trace = [Sigprocmask_block {9, 10}, Sigwait {9, 10}, Sigwait {9, 10},
                     Fwrite Stdlis ''.'']\<rparr>"
    unfolding session_def c
    by (simp add: finish_compile_cases initial_def checkpoint_run_def w1 w2 u m
          c_rem_def run_checkpoint_actions_def run_action_def Let_def)
  show ?thesis
    using signals_blocked_before_wait[OF s] s by (simp add: u)
qed

text \<open>
  A session without any action string and with interval zero: the compilation is
  finished in state \<open>CHKP_INIT\<close>, and \<^verbatim>\<open>sigprocmask\<close> is not called at all. And a
  session that waits for signal 9, which cannot be blocked: the mask is still empty
  when \<^verbatim>\<open>sigwait\<close> runs.
\<close>

theorem never_blocked_counterexample:
  "session extern0 1 0 {} [] [True, False] = Inr (initial 0 {})
   \<and> blockings (trace (initial 0 {})) = []
   \<and> session extern0 1 1 {} [''wait=9''] [True]
       = Inr \<lparr>checkpoint = 1,
              checkpoint_action = [\<lparr>opcode = cop_wait, v = V_signal 9\<rparr>],
              checkpoint_state = CHKP_RUN, sigs = {9}, checkpoint_option = 1,
              tty = False, tty_cleanup = False, sigmask = {},
              trace = [Sigprocmask_block {9}, Sigwait {9}]\<rparr>"
proof -
  have a: "session extern0 1 0 {} [] [True, False] = Inr (initial 0 {})
           \<and> blockings (trace (initial 0 {})) = []"
    by (simp add: session_def finish_compile_cases initial_def checkpoint_run_def)
  have c: "compile_all extern0 [''wait=9''] (initial 1 {})
     = Inr ((initial 1 {})\<lparr>checkpoint_state := CHKP_COMPILE, sigs := {9},
             checkpoint_action := [\<lparr>opcode = cop_wait, v = V_signal 9\<rparr>]\<rparr>)"
    by (simp add: checkpoint_compile_action_def initial_def extern0_def
          decode_signal_spec_def decimal_value_def digit_value_def alloc_action_def
          set_tail_v_def)
  have w1: "wrap_intmax 1 = 1"
    by (simp add: wrap_intmax_def)
  have u: "unblockable extern0 = {9, 19}"
    by (simp add: extern0_def)
  have b: "session extern0 1 1 {} [''wait=9''] [True]
       = Inr \<lparr>checkpoint = 1,
              checkpoint_action = [\<lparr>opcode = cop_wait, v = V_signal 9\<rparr>],
              checkpoint_state = CHKP_RUN, sigs = {9}, checkpoint_option = 1,
              tty = False, tty_cleanup = False, sigmask = {},
              trace = [Sigprocmask_block {9}, Sigwait {9}]\<rparr>"
    unfolding session_def c
    by (simp add: finish_compile_cases initial_def checkpoint_run_def w1 u
          c_rem_def run_checkpoint_actions_def run_action_def Let_def)
  show ?thesis using a b by blast
qed

subsection \<open>Padding\<close>

lemma directive_star:
  "directive E w cpn fp (CHR ''*'') arg st =
     st\<lparr>out := out st @ replicate (star_width E fp arg - len st) CHR '' '',
        len := max (len st) (star_width E fp arg)\<rparr>"
  by (simp add: directive_def Let_def)

text \<open>
  Claim C3, as the code has it. Wherever \<^verbatim>\<open>%*\<close> stands in a template, it writes
  spaces until the running column count reaches the target width, writes nothing when
  the count is already there or past it, and rendering goes on behind it. The target
  is the width of \<^verbatim>\<open>getwidth\<close> when the directive has no argument; the number in
  the argument when \<^verbatim>\<open>stoint\<close> converts the whole, non-empty argument; and 80,
  without a look at the terminal, when there is an argument that is not such a number.
  \<^verbatim>\<open>getwidth\<close> is the positive column count of the window-size probe, else the
  nonzero number that is the whole of \<^verbatim>\<open>COLUMNS\<close>, else 80.
\<close>

theorem star_pads_to_width:
  "fcs E d w cpn fp (''%*'' @ post) 0 st
      = fcs E d w cpn fp post 0
          (st\<lparr>out := out st @ replicate (getwidth E fp - len st) CHR '' '',
             len := max (len st) (getwidth E fp)\<rparr>)
   \<and> (CHR ''}'' \<notin> set a \<longrightarrow>
        fcs E d w cpn fp (''%{'' @ a @ ''}*'' @ post) 0 st
          = fcs E d w cpn fp post 0
              (st\<lparr>out := out st @ replicate
                         ((if snd (stoint E a INTMAX_MAX) \<noteq> 0
                              \<and> snd (stoint E a INTMAX_MAX) = length a
                           then fst (stoint E a INTMAX_MAX) else 80) - len st) CHR '' '',
                 len := max (len st)
                          (if snd (stoint E a INTMAX_MAX) \<noteq> 0
                              \<and> snd (stoint E a INTMAX_MAX) = length a
                           then fst (stoint E a INTMAX_MAX) else 80)\<rparr>))
   \<and> (winsize E fp = Some c \<and> 0 < c \<longrightarrow> getwidth E fp = c)
   \<and> ((winsize E fp = None \<or> winsize E fp = Some 0) \<and> getenv_COLUMNS E = Some s
        \<and> stoint E s INTMAX_MAX = (col, length s) \<and> col \<noteq> 0 \<longrightarrow> getwidth E fp = col)
   \<and> ((winsize E fp = None \<or> winsize E fp = Some 0)
        \<and> (getenv_COLUMNS E = None
            \<or> getenv_COLUMNS E = Some s
               \<and> (snd (stoint E s INTMAX_MAX) \<noteq> length s \<or> fst (stoint E s INTMAX_MAX) = 0))
        \<longrightarrow> getwidth E fp = 80)"
proof -
  have 1: "fcs E d w cpn fp (''%*'' @ post) 0 st
      = fcs E d w cpn fp post 0
          (st\<lparr>out := out st @ replicate (getwidth E fp - len st) CHR '' '',
             len := max (len st) (getwidth E fp)\<rparr>)"
    by (simp add: fcs_directive directive_star star_width_def)
  have 2: "fcs E d w cpn fp (''%{'' @ a @ ''}*'' @ post) 0 st
          = fcs E d w cpn fp post 0
              (st\<lparr>out := out st @ replicate
                         ((if snd (stoint E a INTMAX_MAX) \<noteq> 0
                              \<and> snd (stoint E a INTMAX_MAX) = length a
                           then fst (stoint E a INTMAX_MAX) else 80) - len st) CHR '' '',
                 len := max (len st)
                          (if snd (stoint E a INTMAX_MAX) \<noteq> 0
                              \<and> snd (stoint E a INTMAX_MAX) = length a
                           then fst (stoint E a INTMAX_MAX) else 80)\<rparr>)"
    if "CHR ''}'' \<notin> set a"
    using that
    by (cases "stoint E a INTMAX_MAX")
       (auto simp: fcs_directive_arg directive_star star_width_def)
  have 3: "getwidth E fp = c" if "winsize E fp = Some c \<and> 0 < c"
    using that by (simp add: getwidth_def)
  have 4: "getwidth E fp = col"
    if "(winsize E fp = None \<or> winsize E fp = Some 0) \<and> getenv_COLUMNS E = Some s
        \<and> stoint E s INTMAX_MAX = (col, length s) \<and> col \<noteq> 0"
    using that by (auto simp: getwidth_def)
  have 5: "getwidth E fp = 80"
    if "(winsize E fp = None \<or> winsize E fp = Some 0)
        \<and> (getenv_COLUMNS E = None
            \<or> getenv_COLUMNS E = Some s
               \<and> (snd (stoint E s INTMAX_MAX) \<noteq> length s \<or> fst (stoint E s INTMAX_MAX) = 0))"
    using that by (auto simp: getwidth_def split: prod.splits)
  show ?thesis using 1 2 3 4 5 by blast
qed

lemma stoint_spec_5: "stoint_spec ''5'' INTMAX_MAX = (5, 1)"
  by (simp add: stoint_spec_def is_digit_def decimal_value_def digit_value_def INTMAX_MAX_def)

lemma stoint_spec_x: "stoint_spec ''x'' INTMAX_MAX = (0, 0)"
  by (simp add: stoint_spec_def is_digit_def)

lemma stoint_spec_100: "stoint_spec ''100'' INTMAX_MAX = (100, 3)"
  by (simp add: stoint_spec_def is_digit_def decimal_value_def digit_value_def INTMAX_MAX_def)

theorem star_pads_to_width_witness:
  "format_checkpoint_string extern0 1 Tty 2 (Some ''%{5}*'') True 1 False
      = Inr \<lparr>out = replicate 3 CHR '' '', len = 5, cleanup = False, errors = []\<rparr>
   \<and> format_checkpoint_string extern0 1 Tty 7 (Some ''%{5}*'') True 1 False
      = Inr \<lparr>out = [], len = 7, cleanup = False, errors = []\<rparr>
   \<and> format_checkpoint_string extern0 1 Tty 118 (Some ''%*'') True 1 False
      = Inr \<lparr>out = replicate 2 CHR '' '', len = 120, cleanup = False, errors = []\<rparr>
   \<and> getwidth extern0 Stderr = 100"
  using star_pads_to_width
      [where E = extern0 and d = 1 and w = True and cpn = 1 and fp = Tty and post = "[]"
         and st = "\<lparr>out = [], len = 2, cleanup = False, errors = []\<rparr>"
         and a = "''5''" and c = 120]
    star_pads_to_width
      [where E = extern0 and d = 1 and w = True and cpn = 1 and fp = Tty and post = "[]"
         and st = "\<lparr>out = [], len = 7, cleanup = False, errors = []\<rparr>"
         and a = "''5''" and c = 120]
    star_pads_to_width
      [where E = extern0 and d = 1 and w = True and cpn = 1 and fp = Tty and post = "[]"
         and st = "\<lparr>out = [], len = 118, cleanup = False, errors = []\<rparr>"
         and a = "''5''" and c = 120]
    star_pads_to_width
      [where E = extern0 and d = 1 and w = True and cpn = 1 and fp = Stderr and post = "[]"
         and st = "\<lparr>out = [], len = 0, cleanup = False, errors = []\<rparr>"
         and a = "''5''" and s = "''100''" and col = 100]
  by (simp add: extern0_def stoint_spec_5 stoint_spec_100 format_checkpoint_string_def fcs_nil)

text \<open>
  On a terminal of 120 columns the argument \<open>x\<close>, which is no number, makes \<^verbatim>\<open>%*\<close>
  pad to column 80, not to the width of the terminal.
\<close>

theorem star_invalid_argument_counterexample:
  "snd (stoint extern0 ''x'' INTMAX_MAX) = 0
   \<and> getwidth extern0 Tty = 120
   \<and> format_checkpoint_string extern0 1 Tty 0 (Some ''%{x}*'') True 1 False
      = Inr \<lparr>out = replicate 80 CHR '' '', len = 80, cleanup = False, errors = []\<rparr>"
  using fcs_directive_arg[of "''x''" "CHR ''*''" extern0 1 True 1 Tty "[]"]
  by (simp add: extern0_def stoint_spec_x getwidth_def format_checkpoint_string_def
        directive_star star_width_def fcs_nil)

subsection \<open>Labels of the totals\<close>

lemma directive_T:
  "directive E w cpn fp (CHR ''T'') arg st =
     st\<lparr>out := out st @ format_total_stats E (snd (total_labels E arg)),
        len := len st + length (format_total_stats E (snd (total_labels E arg))),
        errors := errors st @ fst (total_labels E arg)\<rparr>"
  by (simp add: directive_def emit_def split: prod.splits)

text \<open>
  Claim C4, as the code has it. The argument of \<^verbatim>\<open>%T\<close> is split into words. Up to
  three words take the slots of the labels in order, and the slots that are left get
  no label (NULL), not the default one. More than three words are reported with
  \<^verbatim>\<open>paxerror\<close>, the default labels are used, and rendering goes on with the rest of
  the template. Without an argument the default labels are used.
\<close>

theorem percent_T_labels:
  "(CHR ''}'' \<notin> set a \<and> wordsplit E a = Inr ws \<and> length ws \<le> 3 \<longrightarrow>
      fcs E d w cpn fp (''%{'' @ a @ ''}T'' @ post) 0 st
        = fcs E d w cpn fp post 0
            (st\<lparr>out := out st
                     @ format_total_stats E (map Some ws @ replicate (3 - length ws) None),
               len := len st + length (format_total_stats E
                                         (map Some ws @ replicate (3 - length ws) None))\<rparr>))
   \<and> (CHR ''}'' \<notin> set a \<and> wordsplit E a = Inr ws \<and> 3 < length ws \<longrightarrow>
      fcs E d w cpn fp (''%{'' @ a @ ''}T'' @ post) 0 st
        = fcs E d w cpn fp post 0
            (st\<lparr>out := out st @ format_total_stats E [Some ''R'', Some ''W'', Some ''D''],
               len := len st
                      + length (format_total_stats E [Some ''R'', Some ''W'', Some ''D'']),
               errors := errors st @ [Too_many_words a]\<rparr>))
   \<and> fcs E d w cpn fp (''%T'' @ post) 0 st
        = fcs E d w cpn fp post 0
            (st\<lparr>out := out st @ format_total_stats E [Some ''R'', Some ''W'', Some ''D''],
               len := len st
                      + length (format_total_stats E [Some ''R'', Some ''W'', Some ''D''])\<rparr>)"
  by (simp add: fcs_directive_arg fcs_directive directive_T
        total_labels_def checkpoint_total_format_def)

lemma split_a: "wordsplit extern0 ''a'' = Inr [''a'']"
  by (simp add: extern0_def wordsplit_spec_def)

lemma split_abcd: "wordsplit extern0 ''a,b,c,d'' = Inr [''a'', ''b'', ''c'', ''d'']"
  by (simp add: extern0_def wordsplit_spec_def)

lemma stats_a: "format_total_stats extern0 [Some ''a'', None, None] = ''a: 0,0,0''"
  by (simp add: extern0_def format_total_stats_spec_def label_stat_def)

lemma stats_default:
  "format_total_stats extern0 [Some ''R'', Some ''W'', Some ''D''] = ''R: 0,W: 0,D: 0''"
  by (simp add: extern0_def format_total_stats_spec_def label_stat_def)

lemma stats_filled:
  "format_total_stats extern0 [Some ''a'', Some ''W'', Some ''D''] = ''a: 0,W: 0,D: 0''"
  by (simp add: extern0_def format_total_stats_spec_def label_stat_def)

lemma fill_a: "map Some [''a''] @ replicate (3 - length [''a'']) None = [Some ''a'', None, None]"
  by (simp add: numeral_2_eq_2)

theorem percent_T_labels_witness:
  "format_checkpoint_string extern0 1 Stderr 0 (Some ''%{a}T, ok'') True 1 False
     = Inr \<lparr>out = ''a: 0,0,0, ok'', len = 12, cleanup = False, errors = []\<rparr>
   \<and> format_checkpoint_string extern0 1 Stderr 0 (Some ''%{a,b,c,d}T, ok'') True 1 False
     = Inr \<lparr>out = ''R: 0,W: 0,D: 0, ok'', len = 18, cleanup = False,
             errors = [Too_many_words ''a,b,c,d'']\<rparr>"
  using percent_T_labels
      [where E = extern0 and d = 1 and w = True and cpn = 1 and fp = Stderr
         and post = "'', ok''" and a = "''a''" and ws = "[''a'']"
         and st = "\<lparr>out = [], len = 0, cleanup = False, errors = []\<rparr>"]
    percent_T_labels
      [where E = extern0 and d = 1 and w = True and cpn = 1 and fp = Stderr
         and post = "'', ok''" and a = "''a,b,c,d''" and ws = "[''a'', ''b'', ''c'', ''d'']"
         and st = "\<lparr>out = [], len = 0, cleanup = False, errors = []\<rparr>"]
  unfolding fill_a
  by (simp add: split_a split_abcd stats_a stats_default fcs_literal fcs_nil put_literal_def
        format_checkpoint_string_def)

text \<open>
  With the single label \<open>a\<close>, the second and the third slot are NULL: the line is
  rendered with \<open>a\<close> and two bare counts, where the default labels in the open slots
  would have given \<open>W\<close> and \<open>D\<close>.
\<close>

theorem partial_labels_counterexample:
  "total_labels extern0 (Some ''a'') = ([], [Some ''a'', None, None])
   \<and> format_checkpoint_string extern0 1 Stderr 0 (Some ''%{a}T'') True 1 False
       = Inr \<lparr>out = ''a: 0,0,0'', len = 8, cleanup = False, errors = []\<rparr>
   \<and> format_total_stats extern0 [Some ''a'', Some ''W'', Some ''D''] = ''a: 0,W: 0,D: 0''"
proof -
  have l: "total_labels extern0 (Some ''a'') = ([], [Some ''a'', None, None])"
    by (simp add: total_labels_def split_a numeral_2_eq_2)
  have r: "format_checkpoint_string extern0 1 Stderr 0 (Some ''%{a}T'') True 1 False
       = Inr \<lparr>out = ''a: 0,0,0'', len = 8, cleanup = False, errors = []\<rparr>"
    using fcs_directive_arg[of "''a''" "CHR ''T''" extern0 1 True 1 Stderr "[]"]
    by (simp add: format_checkpoint_string_def fcs_nil directive_T l stats_a)
  show ?thesis using l r stats_filled by simp
qed

end
